theory Spec2Isabelle
  imports Complex_Main
begin

section \<open>Webpify: the conversion service and the upload queue\<close>

text \<open>
  A shallow embedding of \<^verbatim>\<open>src/lib/imageConverter.ts\<close> and of the script block of the
  page component (the upload queue, the second script in \<^verbatim>\<open>ImageComparison.svelte\<close>),
  with the URL life cycle and the zoom and pan handlers of the comparison view.

  The host browser is made explicit. Object URLs and decoded bitmaps are handles (natural
  numbers, the k-th one created is k) and the browser state records how many were created
  and the log of release calls. What the browser decides (whether an image decodes, what
  the canvas exports, which identifier \<^verbatim>\<open>crypto.randomUUID\<close> returns) is a parameter of
  the model. Each handler runs to completion: the model has no interleaving inside an
  \<^verbatim>\<open>await\<close>.

  The page keeps its items in \<^verbatim>\<open>$state\<close> variables. The Svelte runtime is not part
  of the repository; its reactive state is modelled as the runtime implements it. A plain
  object stored in a \<^verbatim>\<open>$state\<close> variable or pushed into a \<^verbatim>\<open>$state\<close> array
  is wrapped in a proxy. A proxy keeps its own value of every field, taken from the plain
  object when the field is first read; a write through the proxy changes the proxy's value
  and never the plain object, and storing a proxy stores that same proxy. So the item
  objects of the model are the proxies: they live in a store, and the queue and the
  preview selection hold references to them. A plain object is a value, since nothing
  writes to it. Two proxies of one plain object are two objects of the store: they start
  with the same fields and then change apart.
\<close>

subsection \<open>Files, blobs and the browser's resources\<close>

record File =
  name :: string
  type :: string
  fsize :: nat

record Blob =
  bsize :: nat
  bdata :: nat

text \<open>What a promise rejects with or a \<^verbatim>\<open>throw\<close> raises: an \<^verbatim>\<open>Error\<close> object with
  its message, or any other value (\<^verbatim>\<open>err instanceof Error\<close> is false).\<close>

datatype thrown = JsError string | OtherThrown

record browser =
  urlsCreated :: nat
  urlsRevoked :: "nat list"
  bitmapsCreated :: nat
  bitmapsClosed :: "nat list"

definition createObjectURL :: "browser \<Rightarrow> nat \<times> browser" where
  "createObjectURL b = (urlsCreated b, b\<lparr>urlsCreated := Suc (urlsCreated b)\<rparr>)"

definition revokeObjectURL :: "nat \<Rightarrow> browser \<Rightarrow> browser" where
  "revokeObjectURL u b = b\<lparr>urlsRevoked := urlsRevoked b @ [u]\<rparr>"

text \<open>\<^verbatim>\<open>if (url) URL.revokeObjectURL(url)\<close>: an absent field is falsy, an object URL
  is a non-empty string and so truthy.\<close>

definition revokeIfSet :: "nat option \<Rightarrow> browser \<Rightarrow> browser" where
  "revokeIfSet u b = (case u of None \<Rightarrow> b | Some v \<Rightarrow> revokeObjectURL v b)"

text \<open>The browser's answers during one call of the conversion service.\<close>

record conv_env =
  createImageBitmap :: "File \<Rightarrow> bool"
  getContext :: bool
  toBlob :: "File \<Rightarrow> rat \<Rightarrow> Blob option"
  decode :: "File \<Rightarrow> thrown option"

subsection \<open>\<^verbatim>\<open>convertImageToWebP\<close>\<close>

text \<open>
  The primary path decodes a bitmap, the fallback path loads the file through an image
  element whose source is a fresh object URL. Every \<^verbatim>\<open>throw\<close> and every rejected
  \<^verbatim>\<open>await\<close> leaves the function at once with \<open>Inl\<close>: there is no \<^verbatim>\<open>finally\<close>.
\<close>

definition renderAndExport :: "conv_env \<Rightarrow> File \<Rightarrow> rat \<Rightarrow> thrown + Blob" where
  "renderAndExport c f q =
     (if \<not> getContext c then Inl (JsError ''Canvas not supported'')
      else case toBlob c f q of
             None \<Rightarrow> Inl (JsError ''Blob conversion failed'')
           | Some blob \<Rightarrow> Inr blob)"

definition convertImageToWebP ::
  "conv_env \<Rightarrow> File \<Rightarrow> rat \<Rightarrow> browser \<Rightarrow> (thrown + Blob) \<times> browser" where
  "convertImageToWebP c f q b =
     (if createImageBitmap c f then
        (let bitmap = bitmapsCreated b;
             b1 = b\<lparr>bitmapsCreated := Suc bitmap\<rparr>
         in case renderAndExport c f q of
              Inl e \<Rightarrow> (Inl e, b1)
            | Inr blob \<Rightarrow> (Inr blob, b1\<lparr>bitmapsClosed := bitmapsClosed b1 @ [bitmap]\<rparr>))
      else
        (let (src, b1) = createObjectURL b
         in case decode c f of
              Some e \<Rightarrow> (Inl e, b1)
            | None \<Rightarrow>
                (case renderAndExport c f q of
                   Inl e \<Rightarrow> (Inl e, b1)
                 | Inr blob \<Rightarrow> (Inr blob, revokeObjectURL src b1))))"

text \<open>The resources a call acquired are released: every bitmap and every object URL
  created between \<open>b\<close> and \<open>b'\<close> occurs in the respective release log of \<open>b'\<close>.\<close>

definition released :: "browser \<Rightarrow> browser \<Rightarrow> bool" where
  "released b b' =
     (list_all (\<lambda>m. m \<in> set (bitmapsClosed b')) [bitmapsCreated b ..< bitmapsCreated b'] \<and>
      list_all (\<lambda>u. u \<in> set (urlsRevoked b')) [urlsCreated b ..< urlsCreated b'])"

subsection \<open>The output file name\<close>

text \<open>
  \<^verbatim>\<open>name.replace(/\.(jpe?g|png)$/i, '') + '.webp'\<close>. The pattern has no \<^verbatim>\<open>u\<close> flag,
  so ignoring case compares canonicalised code units, and only the ASCII letters
  canonicalise to the pattern's letters. A name is modelled as a \<^typ>\<open>string\<close>.
\<close>

definition canonicalize :: "char \<Rightarrow> char" where
  "canonicalize c =
     (if 97 \<le> (of_char c :: nat) \<and> (of_char c :: nat) \<le> 122
      then char_of ((of_char c :: nat) - 32) else c)"

text \<open>One pattern character: consumes the next character if it matches.\<close>

fun lit :: "char \<Rightarrow> string \<Rightarrow> string option" where
  "lit p [] = None"
| "lit p (c # cs) = (if canonicalize c = canonicalize p then Some cs else None)"

text \<open>A sequence of pattern characters followed by \<^verbatim>\<open>$\<close>.\<close>

fun lits_end :: "string \<Rightarrow> string \<Rightarrow> bool" where
  "lits_end [] s = (s = [])"
| "lits_end (p # ps) s = (case lit p s of None \<Rightarrow> False | Some r \<Rightarrow> lits_end ps r)"

text \<open>\<^verbatim>\<open>jpe?g$\<close>: the optional \<^verbatim>\<open>e\<close> is greedy, the matcher backtracks to the
  alternative without it.\<close>

definition jpeg_end :: "string \<Rightarrow> bool" where
  "jpeg_end s =
     (case lit CHR ''j'' s of None \<Rightarrow> False
      | Some r1 \<Rightarrow>
          (case lit CHR ''p'' r1 of None \<Rightarrow> False
           | Some r2 \<Rightarrow>
               (case lit CHR ''e'' r2 of
                  Some r3 \<Rightarrow> lits_end ''g'' r3 \<or> lits_end ''g'' r2
                | None \<Rightarrow> lits_end ''g'' r2)))"

text \<open>\<^verbatim>\<open>\.(jpe?g|png)$\<close> tried at the start of the remaining input.\<close>

definition match_here :: "string \<Rightarrow> bool" where
  "match_here s =
     (case lit CHR ''.'' s of None \<Rightarrow> False
      | Some r \<Rightarrow> jpeg_end r \<or> lits_end ''png'' r)"

text \<open>\<^verbatim>\<open>replace\<close> with a pattern that is not global: the leftmost match is replaced,
  here by the empty string, and a match extends to the end of the input.\<close>

fun replace_ext :: "string \<Rightarrow> string" where
  "replace_ext [] = []"
| "replace_ext (c # cs) = (if match_here (c # cs) then [] else c # replace_ext cs)"

definition outputNameOf :: "string \<Rightarrow> string" where
  "outputNameOf n = replace_ext n @ ''.webp''"

text \<open>The specification's words: strip a trailing \<^verbatim>\<open>.jpg\<close>, \<^verbatim>\<open>.jpeg\<close> or
  \<^verbatim>\<open>.png\<close>, whatever the case of its letters, once, and append \<^verbatim>\<open>.webp\<close>.\<close>

definition to_lower :: "char \<Rightarrow> char" where
  "to_lower c =
     (if 65 \<le> (of_char c :: nat) \<and> (of_char c :: nat) \<le> 90
      then char_of ((of_char c :: nat) + 32) else c)"

definition has_extension :: "string \<Rightarrow> string \<Rightarrow> bool" where
  "has_extension e n =
     (length e \<le> length n \<and> map to_lower (drop (length n - length e) n) = e)"

definition strip_extension :: "string \<Rightarrow> string" where
  "strip_extension n =
     (if has_extension ''.jpg'' n then take (length n - 4) n
      else if has_extension ''.jpeg'' n then take (length n - 5) n
      else if has_extension ''.png'' n then take (length n - 4) n
      else n)"

definition spec_output_name :: "string \<Rightarrow> string" where
  "spec_output_name n = strip_extension n @ ''.webp''"

text \<open>What the service returns is a function of the browser's answers alone (lemma
  \<open>convertImageToWebP_outcome\<close> below); the resource counters only number the handles.\<close>

definition serviceOutcome :: "conv_env \<Rightarrow> File \<Rightarrow> rat \<Rightarrow> thrown + Blob" where
  "serviceOutcome c f q =
     (if createImageBitmap c f then renderAndExport c f q
      else case decode c f of Some e \<Rightarrow> Inl e | None \<Rightarrow> renderAndExport c f q)"

subsection \<open>The upload queue: items, store and page state\<close>

datatype UploadStatus = Queued | Converting | Done | Error

record UploadItem =
  item_id :: string
  itemFile :: File
  status :: UploadStatus
  errorMessage :: "string option"
  outputUrl :: "nat option"
  outputBlob :: "Blob option"
  outputName :: "string option"
  sizeBefore :: nat
  sizeAfter :: "nat option"
  thumbnailUrl :: "nat option"

text \<open>The answers of the browser over a session: the k-th call of
  \<^verbatim>\<open>crypto.randomUUID\<close> and the browser's behaviour during the k-th call of the
  conversion service.\<close>

record environment =
  randomUUID :: "nat \<Rightarrow> string"
  conversion :: "nat \<Rightarrow> conv_env"

text \<open>A pending \<^verbatim>\<open>setTimeout\<close>: the delayed automatic selection of
  \<^verbatim>\<open>handleFiles\<close> with the \<^verbatim>\<open>newItems\<close> array it captured, an array of
  plain objects, or the delayed revocation of \<^verbatim>\<open>downloadBlob\<close>.\<close>

datatype timer = AutoSelect "UploadItem list" | RevokeLater nat

text \<open>The two URLs the comparison view holds (\<^verbatim>\<open>''\<close> is \<open>None\<close>).\<close>

record view =
  originalUrl :: "nat option"
  webpUrl :: "nat option"

text \<open>
  \<open>heap\<close> maps a reference to the item object (the proxy) it denotes, \<open>allocated\<close>
  counts the objects created so far; \<open>items\<close> and \<open>selectedPreviewItem\<close> hold
  references.
  \<open>conversions\<close> logs each call of the conversion service with the item it is for and
  the status that item has at the moment of the call; \<open>archives\<close> logs each archive
  \<^verbatim>\<open>generateAsync\<close> produced, as its entries in order; \<open>downloads\<close> logs each
  triggered download with the URL and file name of the anchor.
\<close>

record page =
  heap :: "nat \<Rightarrow> UploadItem"
  allocated :: nat
  items :: "nat list"
  quality :: rat
  selectedPreviewItem :: "nat option"
  timers :: "timer list"
  view :: view
  browser :: browser
  uuidCalls :: nat
  conversions :: "(nat \<times> UploadStatus) list"
  archives :: "(string \<times> Blob) list list"
  downloads :: "(nat \<times> string) list"

definition blankItem :: UploadItem where
  "blankItem =
     \<lparr>item_id = [], itemFile = \<lparr>name = [], type = [], fsize = 0\<rparr>, status = Queued,
      errorMessage = None, outputUrl = None, outputBlob = None, outputName = None,
      sizeBefore = 0, sizeAfter = None, thumbnailUrl = None\<rparr>"

definition initial :: page where
  "initial =
     \<lparr>heap = (\<lambda>r. blankItem), allocated = 0, items = [], quality = 4 / 5,
      selectedPreviewItem = None, timers = [],
      view = \<lparr>originalUrl = None, webpUrl = None\<rparr>,
      browser = \<lparr>urlsCreated = 0, urlsRevoked = [], bitmapsCreated = 0, bitmapsClosed = []\<rparr>,
      uuidCalls = 0, conversions = [], archives = [], downloads = []\<rparr>"

definition alloc :: "UploadItem \<Rightarrow> page \<Rightarrow> nat \<times> page" where
  "alloc it s =
     (allocated s, s\<lparr>heap := (heap s)(allocated s := it), allocated := Suc (allocated s)\<rparr>)"

definition newId :: "environment \<Rightarrow> page \<Rightarrow> string \<times> page" where
  "newId env s = (randomUUID env (uuidCalls s), s\<lparr>uuidCalls := Suc (uuidCalls s)\<rparr>)"

subsection \<open>\<^verbatim>\<open>handleFiles\<close> and the delayed automatic selection\<close>

definition acceptedTypes :: "string list" where
  "acceptedTypes = [''image/jpeg'', ''image/png'']"

definition unsupportedMessage :: string where
  "unsupportedMessage = ''Unsupported file type. Please upload JPEG or PNG.''"

text \<open>The body of the loop for one file. The plain object is created with the fields
  shown; the object allocated for it is the proxy \<^verbatim>\<open>items.push\<close> wraps it in, and
  the reference returned is that of the proxy.\<close>

definition handleFile :: "environment \<Rightarrow> File \<Rightarrow> page \<Rightarrow> nat \<times> page" where
  "handleFile env f s =
     (if type f \<notin> set acceptedTypes then
        (let (i, s1) = newId env s
         in alloc \<lparr>item_id = i, itemFile = f, status = Error,
                    errorMessage = Some unsupportedMessage, outputUrl = None,
                    outputBlob = None, outputName = None, sizeBefore = fsize f,
                    sizeAfter = None, thumbnailUrl = None\<rparr> s1)
      else
        (let (thumbnail, b1) = createObjectURL (browser s);
             (i, s1) = newId env (s\<lparr>browser := b1\<rparr>)
         in alloc \<lparr>item_id = i, itemFile = f, status = Queued,
                    errorMessage = None, outputUrl = None,
                    outputBlob = None, outputName = None, sizeBefore = fsize f,
                    sizeAfter = None, thumbnailUrl = Some thumbnail\<rparr> s1))"

fun handleFiles_loop :: "environment \<Rightarrow> File list \<Rightarrow> nat list \<Rightarrow> page \<Rightarrow> nat list \<times> page" where
  "handleFiles_loop env [] newItems s = (newItems, s)"
| "handleFiles_loop env (f # fs) newItems s =
     (let (r, s1) = handleFile env f s
      in handleFiles_loop env fs (newItems @ [r]) s1)"

text \<open>The timer captures the plain objects of \<^verbatim>\<open>newItems\<close>: the fields the new
  proxies of the queue have at this moment, when nothing has written to them yet.\<close>

definition handleFiles :: "environment \<Rightarrow> File list \<Rightarrow> page \<Rightarrow> page" where
  "handleFiles env fileList s =
     (let (newItems, s1) = handleFiles_loop env fileList [] s;
          s2 = s1\<lparr>items := items s1 @ newItems\<rparr>
      in if selectedPreviewItem s2 = None \<and> newItems \<noteq> []
         then s2\<lparr>timers := timers s2 @ [AutoSelect (map (heap s2) newItems)]\<rparr>
         else s2)"

text \<open>
  The k-th pending timer fires (timers have different delays, so any of them may be the
  next one). The automatic selection looks for the first plain object of \<^verbatim>\<open>newItems\<close>
  whose status is not \<^verbatim>\<open>error\<close>: it reads the status the item was created with,
  whatever the queue's proxy holds by now. Assigning that plain object to
  \<^verbatim>\<open>selectedPreviewItem\<close> wraps it in a proxy of its own: the selection is a new
  object with the fields of the plain object, not the element of the queue.
\<close>

definition fireTimer :: "nat \<Rightarrow> page \<Rightarrow> page" where
  "fireTimer k s =
     (if k < length (timers s) then
        (let s1 = s\<lparr>timers := take k (timers s) @ drop (Suc k) (timers s)\<rparr>
         in case timers s ! k of
              AutoSelect newItems \<Rightarrow>
                (if selectedPreviewItem s1 = None then
                   (case find (\<lambda>item. status item \<noteq> Error) newItems of
                      Some firstValid \<Rightarrow>
                        (let (p, s2) = alloc firstValid s1
                         in s2\<lparr>selectedPreviewItem := Some p\<rparr>)
                    | None \<Rightarrow> s1)
                 else s1)
            | RevokeLater u \<Rightarrow> s1\<lparr>browser := revokeObjectURL u (browser s1)\<rparr>)
      else s)"

subsection \<open>\<^verbatim>\<open>convertAll\<close>\<close>

definition failureMessage :: "thrown \<Rightarrow> string" where
  "failureMessage err =
     (case err of JsError m \<Rightarrow> m | OtherThrown \<Rightarrow> ''Failed to convert to WebP.'')"

definition eligible :: "page \<Rightarrow> nat \<Rightarrow> bool" where
  "eligible s r = (status (heap s r) = Queued \<or> status (heap s r) = Error)"

text \<open>One call of the conversion service for the item \<open>r\<close>, logged.\<close>

definition callService :: "environment \<Rightarrow> nat \<Rightarrow> page \<Rightarrow> (thrown + Blob) \<times> page" where
  "callService env r s =
     (let (res, b1) = convertImageToWebP (conversion env (length (conversions s)))
                        (itemFile (heap s r)) (quality s) (browser s)
      in (res, s\<lparr>browser := b1, conversions := conversions s @ [(r, status (heap s r))]\<rparr>))"

text \<open>The body of the loop of \<^verbatim>\<open>convertAll\<close> for one item.\<close>

definition convertItem :: "environment \<Rightarrow> nat \<Rightarrow> page \<Rightarrow> page" where
  "convertItem env r s =
     (if \<not> eligible s r then s
      else
        (let s1 = s\<lparr>heap := (heap s)(r := (heap s r)\<lparr>status := Converting\<rparr>)\<rparr>;
             (res, s2) = callService env r s1
         in case res of
              Inr blob \<Rightarrow>
                (let outName = outputNameOf (name (itemFile (heap s2 r)));
                     (url, b2) = createObjectURL (browser s2)
                 in s2\<lparr>browser := b2,
                        heap := (heap s2)(r := (heap s2 r)
                          \<lparr>outputBlob := Some blob, outputUrl := Some url,
                           outputName := Some outName, sizeAfter := Some (bsize blob),
                           status := Done\<rparr>)\<rparr>)
            | Inl err \<Rightarrow>
                s2\<lparr>heap := (heap s2)(r := (heap s2 r)
                      \<lparr>status := Error, errorMessage := Some (failureMessage err)\<rparr>)\<rparr>))"

fun convertAll_loop :: "environment \<Rightarrow> nat list \<Rightarrow> page \<Rightarrow> page" where
  "convertAll_loop env [] s = s"
| "convertAll_loop env (r # rs) s = convertAll_loop env rs (convertItem env r s)"

definition convertAll :: "environment \<Rightarrow> page \<Rightarrow> page" where
  "convertAll env s = convertAll_loop env (items s) s"

subsection \<open>\<^verbatim>\<open>clearAll\<close> and \<^verbatim>\<open>deleteItem\<close>\<close>

definition revokeItem :: "UploadItem \<Rightarrow> browser \<Rightarrow> browser" where
  "revokeItem it b = revokeIfSet (thumbnailUrl it) (revokeIfSet (outputUrl it) b)"

fun revokeItems :: "(nat \<Rightarrow> UploadItem) \<Rightarrow> nat list \<Rightarrow> browser \<Rightarrow> browser" where
  "revokeItems h [] b = b"
| "revokeItems h (r # rs) b = revokeItems h rs (revokeItem (h r) b)"

definition clearAll :: "page \<Rightarrow> page" where
  "clearAll s =
     s\<lparr>browser := revokeItems (heap s) (items s) (browser s),
       items := [], selectedPreviewItem := None\<rparr>"

text \<open>\<^verbatim>\<open>findIndex\<close>: \<open>None\<close> stands for \<^verbatim>\<open>-1\<close>.\<close>

fun findIndex :: "('a \<Rightarrow> bool) \<Rightarrow> 'a list \<Rightarrow> nat option" where
  "findIndex P [] = None"
| "findIndex P (x # xs) =
     (if P x then Some 0 else case findIndex P xs of None \<Rightarrow> None | Some i \<Rightarrow> Some (Suc i))"

text \<open>\<^verbatim>\<open>items.filter((_, i) => i !== index)\<close>, which is also what
  \<^verbatim>\<open>items.splice(index, 1)\<close> leaves.\<close>

definition without :: "nat \<Rightarrow> 'a list \<Rightarrow> 'a list" where
  "without index xs = take index xs @ drop (Suc index) xs"

definition deleteItem :: "string \<Rightarrow> page \<Rightarrow> page" where
  "deleteItem i s =
     (case findIndex (\<lambda>r. item_id (heap s r) = i) (items s) of
        None \<Rightarrow> s
      | Some index \<Rightarrow>
          (let item = heap s (items s ! index);
               b1 = revokeItem item (browser s);
               remainingItems = without index (items s);
               selected =
                 (case selectedPreviewItem s of
                    None \<Rightarrow> None
                  | Some p \<Rightarrow>
                      if item_id (heap s p) = i
                      then find (\<lambda>r. status (heap s r) \<noteq> Error) remainingItems
                      else Some p)
           in s\<lparr>browser := b1, selectedPreviewItem := selected,
                 items := without index (items s)\<rparr>))"

subsection \<open>\<^verbatim>\<open>downloadAllZip\<close>\<close>

text \<open>
  The archive library (JSZip) is not part of the repository. Its \<^verbatim>\<open>file(name, data)\<close>
  is modelled as documented: it adds the entry, or replaces the data of the entry that
  already has this name. Names are taken as plain entry names (no directory separators).
\<close>

fun zip_file :: "string \<Rightarrow> Blob \<Rightarrow> (string \<times> Blob) list \<Rightarrow> (string \<times> Blob) list" where
  "zip_file n d [] = [(n, d)]"
| "zip_file n d ((k, v) # z) = (if k = n then (n, d) # z else (k, v) # zip_file n d z)"

definition entryName :: "UploadItem \<Rightarrow> string" where
  "entryName it =
     (case outputName it of Some n \<Rightarrow> n | None \<Rightarrow> outputNameOf (name (itemFile it)))"

fun zip_loop ::
  "(nat \<Rightarrow> UploadItem) \<Rightarrow> nat list \<Rightarrow> (string \<times> Blob) list \<Rightarrow> nat \<Rightarrow> (string \<times> Blob) list \<times> nat" where
  "zip_loop h [] z added = (z, added)"
| "zip_loop h (r # rs) z added =
     (if status (h r) = Done then
        (case outputBlob (h r) of
           Some blob \<Rightarrow> zip_loop h rs (zip_file (entryName (h r)) blob z) (added + 1)
         | None \<Rightarrow> zip_loop h rs z added)
      else zip_loop h rs z added)"

text \<open>\<^verbatim>\<open>downloadBlob\<close>: an anchor with a fresh URL is clicked, the URL is revoked by a
  timer.\<close>

definition downloadBlob :: "string \<Rightarrow> page \<Rightarrow> page" where
  "downloadBlob filename s =
     (let (href, b1) = createObjectURL (browser s)
      in s\<lparr>browser := b1, downloads := downloads s @ [(href, filename)],
            timers := timers s @ [RevokeLater href]\<rparr>)"

definition downloadAllZip :: "page \<Rightarrow> page" where
  "downloadAllZip s =
     (let (z, added) = zip_loop (heap s) (items s) [] 0
      in if added = 0 then s
         else downloadBlob ''converted-webp.zip'' (s\<lparr>archives := archives s @ [z]\<rparr>))"

subsection \<open>The comparison view's URLs and the page's \<^verbatim>\<open>onWebPGenerated\<close> callback\<close>

definition onWebPGenerated :: "Blob \<Rightarrow> nat \<Rightarrow> page \<Rightarrow> page" where
  "onWebPGenerated blob sz s =
     (case selectedPreviewItem s of
        None \<Rightarrow> s
      | Some r \<Rightarrow>
          (let b1 = (case outputBlob (heap s r) of
                       None \<Rightarrow> browser s
                     | Some old \<Rightarrow> revokeIfSet (outputUrl (heap s r)) (browser s));
               (url, b2) = createObjectURL b1
           in s\<lparr>browser := b2,
                 heap := (heap s)(r := (heap s r)
                   \<lparr>sizeAfter := Some sz, outputBlob := Some blob, outputUrl := Some url,
                    outputName := Some (outputNameOf (name (itemFile (heap s r))))\<rparr>)\<rparr>))"

text \<open>
  The view is mounted while an item is selected, its \<open>originalFile\<close> is the file of the
  selected item. Each effect is taken with its asynchronous part as one step. The first
  effect sets both URLs without revoking what they held; the second one revokes the
  previous converted URL.
\<close>

definition viewEffect1 :: "environment \<Rightarrow> page \<Rightarrow> page" where
  "viewEffect1 env s =
     (case selectedPreviewItem s of
        None \<Rightarrow> s
      | Some r \<Rightarrow>
          (let (orig, b1) = createObjectURL (browser s);
               s1 = s\<lparr>browser := b1, view := (view s)\<lparr>originalUrl := Some orig\<rparr>\<rparr>;
               (res, s2) = callService env r s1
           in case res of
                Inl err \<Rightarrow> s2
              | Inr webpBlob \<Rightarrow>
                  (let (w, b2) = createObjectURL (browser s2)
                   in onWebPGenerated webpBlob (bsize webpBlob)
                        (s2\<lparr>browser := b2, view := (view s2)\<lparr>webpUrl := Some w\<rparr>\<rparr>))))"

definition viewEffect2 :: "environment \<Rightarrow> page \<Rightarrow> page" where
  "viewEffect2 env s =
     (case selectedPreviewItem s of
        None \<Rightarrow> s
      | Some r \<Rightarrow>
          (let (res, s2) = callService env r s
           in case res of
                Inl err \<Rightarrow> s2
              | Inr webpBlob \<Rightarrow>
                  (let b1 = revokeIfSet (webpUrl (view s2)) (browser s2);
                       (w, b2) = createObjectURL b1
                   in onWebPGenerated webpBlob (bsize webpBlob)
                        (s2\<lparr>browser := b2, view := (view s2)\<lparr>webpUrl := Some w\<rparr>\<rparr>))))"

text \<open>The clean-up returned by \<^verbatim>\<open>onMount\<close>; the instance is gone afterwards.\<close>

definition viewTeardown :: "page \<Rightarrow> page" where
  "viewTeardown s =
     s\<lparr>browser := revokeIfSet (webpUrl (view s)) (revokeIfSet (originalUrl (view s)) (browser s)),
       view := \<lparr>originalUrl = None, webpUrl = None\<rparr>\<rparr>"

subsection \<open>Zoom and pan of the comparison view\<close>

text \<open>
  The zoom scale is a double. The two products the handlers compute,
  \<^verbatim>\<open>scale * 1.1\<close> and \<^verbatim>\<open>scale * 0.9\<close>, are rounded by the machine: what they
  round to is a parameter of the model, \<open>up x\<close> for \<^verbatim>\<open>x * 1.1\<close> and \<open>dn x\<close> for
  \<^verbatim>\<open>x * 0.9\<close>. \<^verbatim>\<open>Math.max\<close>, \<^verbatim>\<open>Math.min\<close> and the comparisons are exact.
  The pan offsets are sums and differences of mouse coordinates and of the step 20: they
  are taken as exact, which they are for integer coordinates.
\<close>

record rounding =
  up :: "rat \<Rightarrow> rat"
  dn :: "rat \<Rightarrow> rat"

record zoom =
  scale :: rat
  panX :: rat
  panY :: rat
  isPanning :: bool
  lastPanX :: rat
  lastPanY :: rat
  hasInteracted :: bool

definition zoomInitial :: zoom where
  "zoomInitial =
     \<lparr>scale = 1, panX = 0, panY = 0, isPanning = False, lastPanX = 0, lastPanY = 0,
      hasInteracted = False\<rparr>"

text \<open>\<^verbatim>\<open>handleWheel\<close>: \<open>modifier\<close> says that one of \<^verbatim>\<open>ctrlKey\<close>,
  \<^verbatim>\<open>metaKey\<close>, \<^verbatim>\<open>altKey\<close> is set.\<close>

definition handleWheel :: "rounding \<Rightarrow> bool \<Rightarrow> rat \<Rightarrow> zoom \<Rightarrow> zoom" where
  "handleWheel m modifier deltaY z =
     (if modifier then
        (let z1 = z\<lparr>hasInteracted := True\<rparr>;
             delta = - deltaY;
             product = (if delta > 0 then up m (scale z1) else dn m (scale z1));
             newScale = max (1 / 2) (min 3 product)
         in if newScale \<noteq> scale z1 then
              (let z2 = z1\<lparr>scale := newScale\<rparr>
               in if scale z2 = 1 then z2\<lparr>panX := 0, panY := 0\<rparr> else z2)
            else z1)
      else z)"

text \<open>\<^verbatim>\<open>handleImageMouseDown\<close>: \<open>onDivider\<close> says that the target is inside the
  divider.\<close>

definition handleImageMouseDown :: "bool \<Rightarrow> rat \<Rightarrow> rat \<Rightarrow> zoom \<Rightarrow> zoom" where
  "handleImageMouseDown onDivider clientX clientY z =
     (if onDivider then z
      else
        (let z1 = z\<lparr>hasInteracted := True\<rparr>
         in if scale z1 \<le> 1 then z1
            else z1\<lparr>isPanning := True, lastPanX := clientX, lastPanY := clientY\<rparr>))"

text \<open>\<^verbatim>\<open>handleImageMouseMove\<close> is registered on the document by
  \<^verbatim>\<open>handleImageMouseDown\<close> and removed by \<^verbatim>\<open>handleImageMouseUp\<close>: it is
  registered whenever \<open>isPanning\<close> is set.\<close>

definition handleImageMouseMove :: "rat \<Rightarrow> rat \<Rightarrow> zoom \<Rightarrow> zoom" where
  "handleImageMouseMove clientX clientY z =
     (if \<not> isPanning z then z
      else
        (let deltaX = clientX - lastPanX z;
             deltaY = clientY - lastPanY z
         in z\<lparr>panX := panX z + deltaX, panY := panY z + deltaY,
               lastPanX := clientX, lastPanY := clientY\<rparr>))"

definition handleImageMouseUp :: "zoom \<Rightarrow> zoom" where
  "handleImageMouseUp z = z\<lparr>isPanning := False\<rparr>"

definition resetZoom :: "zoom \<Rightarrow> zoom" where
  "resetZoom z = z\<lparr>scale := 1, panX := 0, panY := 0\<rparr>"

datatype key =
    Enter | Space | Plus | Equals | Minus
  | ArrowLeft | ArrowRight | ArrowUp | ArrowDown | OtherKey

text \<open>\<^verbatim>\<open>handleKeyDown\<close>: \<open>inside\<close> says that the target of the event is the
  container or inside it, \<open>focused\<close> that the active element is.\<close>

definition handleKeyDown :: "rounding \<Rightarrow> bool \<Rightarrow> bool \<Rightarrow> key \<Rightarrow> zoom \<Rightarrow> zoom" where
  "handleKeyDown m inside focused k z =
     (if \<not> inside then z
      else
        (let z1 = z\<lparr>hasInteracted := True\<rparr>
         in case k of
              Enter \<Rightarrow> resetZoom z1
            | Space \<Rightarrow> if focused then resetZoom z1 else z1
            | Plus \<Rightarrow> z1\<lparr>scale := min 3 (up m (scale z1))\<rparr>
            | Equals \<Rightarrow> z1\<lparr>scale := min 3 (up m (scale z1))\<rparr>
            | Minus \<Rightarrow>
                (let z2 = z1\<lparr>scale := max (1 / 2) (dn m (scale z1))\<rparr>
                 in if scale z2 = 1 then z2\<lparr>panX := 0, panY := 0\<rparr> else z2)
            | ArrowLeft \<Rightarrow> if scale z1 > 1 then z1\<lparr>panX := panX z1 + 20\<rparr> else z1
            | ArrowRight \<Rightarrow> if scale z1 > 1 then z1\<lparr>panX := panX z1 - 20\<rparr> else z1
            | ArrowUp \<Rightarrow> if scale z1 > 1 then z1\<lparr>panY := panY z1 + 20\<rparr> else z1
            | ArrowDown \<Rightarrow> if scale z1 > 1 then z1\<lparr>panY := panY z1 - 20\<rparr> else z1
            | OtherKey \<Rightarrow> z1))"

text \<open>\<^verbatim>\<open>handleGlobalKeyDown\<close>, the listener on the document: \<open>formTarget\<close> says
  that the target is an input, a text area, a button or editable content. A key event
  that \<^verbatim>\<open>handleKeyDown\<close> stopped does not reach it.\<close>

definition handleGlobalKeyDown :: "bool \<Rightarrow> key \<Rightarrow> zoom \<Rightarrow> zoom" where
  "handleGlobalKeyDown formTarget k z =
     (if k = Enter \<and> hasInteracted z \<and> (scale z \<noteq> 1 \<or> panX z \<noteq> 0 \<or> panY z \<noteq> 0)
      then (if formTarget then z else resetZoom z)
      else z)"

datatype zoomEvent =
    Wheel bool rat
  | ImageMouseDown bool rat rat
  | ImageMouseMove rat rat
  | ImageMouseUp
  | KeyDown bool bool key
  | GlobalKeyDown bool key
  | ResetButton

fun zoomStep :: "rounding \<Rightarrow> zoomEvent \<Rightarrow> zoom \<Rightarrow> zoom" where
  "zoomStep m (Wheel modifier deltaY) z = handleWheel m modifier deltaY z"
| "zoomStep m (ImageMouseDown onDivider x y) z = handleImageMouseDown onDivider x y z"
| "zoomStep m (ImageMouseMove x y) z = handleImageMouseMove x y z"
| "zoomStep m ImageMouseUp z = handleImageMouseUp z"
| "zoomStep m (KeyDown inside focused k) z = handleKeyDown m inside focused k z"
| "zoomStep m (GlobalKeyDown formTarget k) z = handleGlobalKeyDown formTarget k z"
| "zoomStep m ResetButton z = resetZoom z"

fun zoomRun :: "rounding \<Rightarrow> zoomEvent list \<Rightarrow> zoom \<Rightarrow> zoom" where
  "zoomRun m [] z = z"
| "zoomRun m (e # es) z = zoomRun m es (zoomStep m e z)"

text \<open>The \<^verbatim>\<open>+\<close> key is pressed in the focused view, the mouse button goes down on the
  image at (0, 0), Enter is pressed while the button is held, and the mouse moves to
  (5, 0).\<close>

definition dragAcrossReset :: "zoomEvent list" where
  "dragAcrossReset =
     [KeyDown True True Plus, ImageMouseDown False 0 0, KeyDown True True Enter,
      ImageMouseMove 5 0]"

text \<open>The products as they would be without rounding.\<close>

definition unrounded :: rounding where
  "unrounded = \<lparr>up = (\<lambda>x. x * (11 / 10)), dn = (\<lambda>x. x * (9 / 10))\<rparr>"

subsection \<open>Sessions\<close>

datatype event =
    HandleFiles "File list"
  | FireTimer nat
  | ConvertAll
  | DeleteItem string
  | ClearAll
  | DownloadAllZip
  | SetQuality rat
  | ViewEffect1
  | ViewEffect2
  | ViewTeardown

fun step :: "environment \<Rightarrow> event \<Rightarrow> page \<Rightarrow> page" where
  "step env (HandleFiles fs) s = handleFiles env fs s"
| "step env (FireTimer k) s = fireTimer k s"
| "step env ConvertAll s = convertAll env s"
| "step env (DeleteItem i) s = deleteItem i s"
| "step env ClearAll s = clearAll s"
| "step env DownloadAllZip s = downloadAllZip s"
| "step env (SetQuality q) s = s\<lparr>quality := q\<rparr>"
| "step env ViewEffect1 s = viewEffect1 env s"
| "step env ViewEffect2 s = viewEffect2 env s"
| "step env ViewTeardown s = viewTeardown s"

fun run :: "environment \<Rightarrow> event list \<Rightarrow> page \<Rightarrow> page" where
  "run env [] s = s"
| "run env (e # es) s = run env es (step env e s)"

subsection \<open>Notions used in the statements\<close>

text \<open>The browser's release logs only name handles that exist.\<close>

definition browser_ok :: "browser \<Rightarrow> bool" where
  "browser_ok b =
     (list_all (\<lambda>u. u < urlsCreated b) (urlsRevoked b) \<and>
      list_all (\<lambda>m. m < bitmapsCreated b) (bitmapsClosed b))"

text \<open>The object URLs an item holds, in the order \<^verbatim>\<open>clearAll\<close> and
  \<^verbatim>\<open>deleteItem\<close> visit them.\<close>

definition heldUrls :: "UploadItem \<Rightarrow> nat list" where
  "heldUrls it =
     (case outputUrl it of None \<Rightarrow> [] | Some u \<Rightarrow> [u]) @
     (case thumbnailUrl it of None \<Rightarrow> [] | Some u \<Rightarrow> [u])"

text \<open>The queue holds distinct references to existing objects.\<close>

definition wellFormed :: "page \<Rightarrow> bool" where
  "wellFormed s = (distinct (items s) \<and> list_all (\<lambda>r. r < allocated s) (items s))"

text \<open>A finished item has its output blob, URL and a non-empty name, a failed item has
  a message, of which \<open>P\<close> holds.\<close>

definition itemRecorded :: "(string \<Rightarrow> bool) \<Rightarrow> UploadItem \<Rightarrow> bool" where
  "itemRecorded P it =
     ((status it = Done \<longrightarrow>
         outputBlob it \<noteq> None \<and> outputUrl it \<noteq> None \<and>
         (case outputName it of None \<Rightarrow> False | Some n \<Rightarrow> n \<noteq> [])) \<and>
      (status it = Error \<longrightarrow>
         (case errorMessage it of None \<Rightarrow> False | Some m \<Rightarrow> P m)))"

definition queueRecorded :: "(string \<Rightarrow> bool) \<Rightarrow> page \<Rightarrow> bool" where
  "queueRecorded P s = list_all (\<lambda>r. itemRecorded P (heap s r)) (items s)"

text \<open>The invariant of the data model: a finished item has its output blob, URL and a
  non-empty name, a failed item has a non-empty message.\<close>

definition itemComplete :: "UploadItem \<Rightarrow> bool" where
  "itemComplete it = itemRecorded (\<lambda>m. m \<noteq> []) it"

definition queueComplete :: "page \<Rightarrow> bool" where
  "queueComplete s = list_all (\<lambda>r. itemComplete (heap s r)) (items s)"

text \<open>\<open>P\<close> holds of every message an item can get: the four the code writes and the
  messages of the errors the browser rejects \<^verbatim>\<open>img.decode()\<close> with.\<close>

definition messagesSatisfy :: "(string \<Rightarrow> bool) \<Rightarrow> environment \<Rightarrow> bool" where
  "messagesSatisfy P env =
     (P unsupportedMessage \<and> P ''Canvas not supported'' \<and> P ''Blob conversion failed'' \<and>
      P ''Failed to convert to WebP.'' \<and>
      (\<forall>k f m. decode (conversion env k) f = Some (JsError m) \<longrightarrow> P m))"

text \<open>No item of the queue is left in \<^verbatim>\<open>converting\<close>.\<close>

definition settled :: "page \<Rightarrow> bool" where
  "settled s = list_all (\<lambda>r. status (heap s r) \<noteq> Converting) (items s)"

text \<open>The items \<^verbatim>\<open>downloadAllZip\<close> packs, and the entry it makes for one.\<close>

definition isDone :: "(nat \<Rightarrow> UploadItem) \<Rightarrow> nat \<Rightarrow> bool" where
  "isDone h r = (status (h r) = Done \<and> outputBlob (h r) \<noteq> None)"

definition entryOf :: "(nat \<Rightarrow> UploadItem) \<Rightarrow> nat \<Rightarrow> string \<times> Blob" where
  "entryOf h r =
     (entryName (h r),
      case outputBlob (h r) of Some blob \<Rightarrow> blob | None \<Rightarrow> \<lparr>bsize = 0, bdata = 0\<rparr>)"

text \<open>What \<^verbatim>\<open>handleFiles\<close> makes of one incoming file: the item \<open>it\<close> for the file
  \<open>f\<close>, where the object URLs created by the call are those from \<open>lo\<close> up to \<open>hi\<close>.\<close>

definition addedFor :: "File \<Rightarrow> nat \<Rightarrow> nat \<Rightarrow> UploadItem \<Rightarrow> bool" where
  "addedFor f lo hi it =
     (itemFile it = f \<and> sizeBefore it = fsize f \<and> sizeAfter it = None \<and>
      outputUrl it = None \<and> outputBlob it = None \<and> outputName it = None \<and>
      (if type f = ''image/jpeg'' \<or> type f = ''image/png''
       then status it = Queued \<and> errorMessage it = None \<and>
            (case thumbnailUrl it of None \<Rightarrow> False | Some u \<Rightarrow> lo \<le> u \<and> u < hi)
       else status it = Error \<and>
            errorMessage it = Some ''Unsupported file type. Please upload JPEG or PNG.'' \<and>
            thumbnailUrl it = None))"







subsection \<open>Sample files and browsers\<close>

definition photoJpg :: File where
  "photoJpg = \<lparr>name = ''photo.jpg'', type = ''image/jpeg'', fsize = 2048\<rparr>"

definition photoPng :: File where
  "photoPng = \<lparr>name = ''photo.png'', type = ''image/png'', fsize = 4096\<rparr>"

definition animGif :: File where
  "animGif = \<lparr>name = ''anim.gif'', type = ''image/gif'', fsize = 512\<rparr>"

text \<open>A browser in which every conversion succeeds on the primary path: the exported blob
  has a tenth of the bytes of the source.\<close>

definition workingBrowser :: conv_env where
  "workingBrowser =
     \<lparr>createImageBitmap = (\<lambda>f. True), getContext = True,
      toBlob = (\<lambda>f q. Some \<lparr>bsize = fsize f div 10, bdata = fsize f\<rparr>),
      decode = (\<lambda>f. None)\<rparr>"

text \<open>A browser that decodes the file on neither path.\<close>

definition undecodable :: conv_env where
  "undecodable =
     \<lparr>createImageBitmap = (\<lambda>f. False), getContext = True,
      toBlob = (\<lambda>f q. None),
      decode = (\<lambda>f. Some (JsError ''The source image cannot be decoded.''))\<rparr>"

text \<open>A browser that decodes the bitmap and then fails to export the canvas.\<close>

definition exportFails :: conv_env where
  "exportFails =
     \<lparr>createImageBitmap = (\<lambda>f. True), getContext = True,
      toBlob = (\<lambda>f q. None), decode = (\<lambda>f. None)\<rparr>"

definition freshBrowser :: browser where
  "freshBrowser = \<lparr>urlsCreated = 0, urlsRevoked = [], bitmapsCreated = 0, bitmapsClosed = []\<rparr>"

definition sampleEnv :: environment where
  "sampleEnv =
     \<lparr>randomUUID = (\<lambda>k. replicate (Suc k) CHR ''u''), conversion = (\<lambda>k. workingBrowser)\<rparr>"

definition failingEnv :: environment where
  "failingEnv =
     \<lparr>randomUUID = (\<lambda>k. replicate (Suc k) CHR ''u''), conversion = (\<lambda>k. undecodable)\<rparr>"

text \<open>A browser that decodes the file on neither path and rejects
  \<^verbatim>\<open>img.decode()\<close> with an error whose message is empty.\<close>

definition silentlyUndecodable :: conv_env where
  "silentlyUndecodable =
     \<lparr>createImageBitmap = (\<lambda>f. False), getContext = True,
      toBlob = (\<lambda>f q. None), decode = (\<lambda>f. Some (JsError []))\<rparr>"

definition silentEnv :: environment where
  "silentEnv =
     \<lparr>randomUUID = (\<lambda>k. replicate (Suc k) CHR ''u''), conversion = (\<lambda>k. silentlyUndecodable)\<rparr>"

text \<open>The queue after one unsupported and one supported file were dropped.\<close>

definition uploaded :: page where
  "uploaded = handleFiles sampleEnv [animGif, photoJpg] initial"

text \<open>Two files with the same output name, both converted.\<close>

definition twoPhotos :: page where
  "twoPhotos = convertAll sampleEnv (handleFiles sampleEnv [photoJpg, photoPng] initial)"

text \<open>Two files are dropped, the delayed selection opens the preview of the first one
  and both conversions of the preview finish.\<close>

definition previewTwo :: "event list" where
  "previewTwo = [HandleFiles [photoJpg, photoPng], FireTimer 0, ViewEffect1, ViewEffect2]"

definition previewed :: page where
  "previewed = run sampleEnv previewTwo initial"



text \<open>The characters of the pattern: lower-case letters and the dot.\<close>

definition pattern_char :: "char \<Rightarrow> bool" where
  "pattern_char p = ((97 \<le> (of_char p :: nat) \<and> (of_char p :: nat) \<le> 122) \<or> (of_char p :: nat) < 65)"

section \<open>Properties\<close>

subsection \<open>The sample queue, evaluated\<close>

lemma uploaded_state:
  "uploaded =
     \<lparr>heap = (\<lambda>r. blankItem)
        (0 := \<lparr>item_id = ''u'', itemFile = animGif, status = Error,
               errorMessage = Some unsupportedMessage,
               outputUrl = None, outputBlob = None, outputName = None, sizeBefore = 512,
               sizeAfter = None, thumbnailUrl = None\<rparr>,
         1 := \<lparr>item_id = ''uu'', itemFile = photoJpg, status = Queued, errorMessage = None,
               outputUrl = None, outputBlob = None, outputName = None, sizeBefore = 2048,
               sizeAfter = None, thumbnailUrl = Some 0\<rparr>),
      allocated = 2, items = [0, 1], quality = 4 / 5,
      selectedPreviewItem = None,
      timers = [AutoSelect
        [\<lparr>item_id = ''u'', itemFile = animGif, status = Error,
          errorMessage = Some unsupportedMessage,
          outputUrl = None, outputBlob = None, outputName = None, sizeBefore = 512,
          sizeAfter = None, thumbnailUrl = None\<rparr>,
         \<lparr>item_id = ''uu'', itemFile = photoJpg, status = Queued, errorMessage = None,
          outputUrl = None, outputBlob = None, outputName = None, sizeBefore = 2048,
          sizeAfter = None, thumbnailUrl = Some 0\<rparr>]],
      view = \<lparr>originalUrl = None, webpUrl = None\<rparr>,
      browser = \<lparr>urlsCreated = 1, urlsRevoked = [], bitmapsCreated = 0, bitmapsClosed = []\<rparr>,
      uuidCalls = 2, conversions = [], archives = [], downloads = []\<rparr>"
  by (simp add: uploaded_def handleFiles_def handleFile_def initial_def sampleEnv_def
      photoJpg_def animGif_def acceptedTypes_def newId_def alloc_def createObjectURL_def Let_def)

lemma uploaded_fields:
  "items uploaded = [0, 1]"
  "conversions uploaded = []"
  "quality uploaded = 4 / 5"
  "allocated uploaded = 2"
  "selectedPreviewItem uploaded = None"
  "browser uploaded = \<lparr>urlsCreated = 1, urlsRevoked = [], bitmapsCreated = 0, bitmapsClosed = []\<rparr>"
  "heap uploaded 0 = \<lparr>item_id = ''u'', itemFile = animGif, status = Error,
               errorMessage = Some unsupportedMessage,
               outputUrl = None, outputBlob = None, outputName = None, sizeBefore = 512,
               sizeAfter = None, thumbnailUrl = None\<rparr>"
  "heap uploaded (Suc 0) = \<lparr>item_id = ''uu'', itemFile = photoJpg, status = Queued, errorMessage = None,
               outputUrl = None, outputBlob = None, outputName = None, sizeBefore = 2048,
               sizeAfter = None, thumbnailUrl = Some 0\<rparr>"
  by (simp_all add: uploaded_state)

lemma outputNameOf_samples:
  "outputNameOf ''photo.jpg'' = ''photo.webp''"
  "outputNameOf ''photo.png'' = ''photo.webp''"
  "outputNameOf ''anim.gif'' = ''anim.gif.webp''"
  by code_simp+

subsection \<open>The output file name\<close>

lemma of_char_canonicalize:
  "(of_char (canonicalize c) :: nat) =
     (if 97 \<le> (of_char c :: nat) \<and> (of_char c :: nat) \<le> 122 then of_char c - 32 else of_char c)"
proof -
  have "(of_char c :: nat) < 256" by simp
  then have "(of_char c :: nat) - 32 < 256" by arith
  then have "((of_char c :: nat) - 32) mod 256 = of_char c - 32" by simp
  then show ?thesis by (simp add: canonicalize_def)
qed

lemma of_char_to_lower:
  "(of_char (to_lower c) :: nat) =
     (if 65 \<le> (of_char c :: nat) \<and> (of_char c :: nat) \<le> 90 then of_char c + 32 else of_char c)"
  by (simp add: to_lower_def)

lemma canon_lower:
  assumes "(97 \<le> (of_char p :: nat) \<and> (of_char p :: nat) \<le> 122) \<or> (of_char p :: nat) < 65"
  shows "canonicalize c = canonicalize p \<longleftrightarrow> to_lower c = p"
proof -
  have "(canonicalize c = canonicalize p) =
        ((of_char (canonicalize c) :: nat) = of_char (canonicalize p))" by simp
  moreover have "(to_lower c = p) = ((of_char (to_lower c) :: nat) = of_char p)" by simp
  moreover have "((of_char (canonicalize c) :: nat) = of_char (canonicalize p)) =
     ((of_char (to_lower c) :: nat) = of_char p)"
    using assms unfolding of_char_canonicalize of_char_to_lower by (simp split: if_splits del: of_char_eq_iff) arith
  ultimately show ?thesis by (simp only:)
qed

lemma lits_end_iff:
  "list_all pattern_char ps \<Longrightarrow> lits_end ps s \<longleftrightarrow> map to_lower s = ps"
proof (induction ps arbitrary: s)
  case Nil
  then show ?case by simp
next
  case (Cons p ps)
  then show ?case
    by (cases s) (auto simp: canon_lower pattern_char_def)
qed

lemma match_here_lits:
  "match_here s \<longleftrightarrow> lits_end ''.jpeg'' s \<or> lits_end ''.jpg'' s \<or> lits_end ''.png'' s"
  by (auto simp: match_here_def jpeg_end_def split: option.splits)

lemma match_here_iff:
  "match_here s \<longleftrightarrow> map to_lower s = ''.jpeg'' \<or> map to_lower s = ''.jpg'' \<or> map to_lower s = ''.png''"
proof -
  have a: "lits_end ''.jpeg'' s \<longleftrightarrow> map to_lower s = ''.jpeg''"
    by (rule lits_end_iff) (simp add: pattern_char_def)
  have b: "lits_end ''.jpg'' s \<longleftrightarrow> map to_lower s = ''.jpg''"
    by (rule lits_end_iff) (simp add: pattern_char_def)
  have c: "lits_end ''.png'' s \<longleftrightarrow> map to_lower s = ''.png''"
    by (rule lits_end_iff) (simp add: pattern_char_def)
  show ?thesis unfolding match_here_lits a b c ..
qed

lemma has_extension_Cons:
  "has_extension e (c # cs) \<longleftrightarrow> map to_lower (c # cs) = e \<or> has_extension e cs"
proof (cases "length e \<le> length cs")
  case True
  then have "Suc (length cs) - length e = Suc (length cs - length e)" by arith
  moreover have "map to_lower (c # cs) \<noteq> e"
    using True by (auto dest: arg_cong [where f = length])
  ultimately show ?thesis using True by (simp add: has_extension_def)
next
  case False
  show ?thesis
  proof (cases "length e = Suc (length cs)")
    case True
    then show ?thesis by (simp add: has_extension_def)
  next
    case False2: False
    have "map to_lower (c # cs) \<noteq> e"
      using False2 by (auto dest: arg_cong [where f = length])
    then show ?thesis using False False2 by (simp add: has_extension_def)
  qed
qed

lemma has_extension_whole: "map to_lower n = e \<Longrightarrow> has_extension e n"
  by (auto simp: has_extension_def)

lemma has_extension_length: "has_extension e n \<Longrightarrow> length e \<le> length n"
  by (simp add: has_extension_def)

lemma strip_extension_match: "match_here n \<Longrightarrow> strip_extension n = []"
  unfolding match_here_iff
proof (elim disjE)
  assume h: "map to_lower n = ''.jpeg''"
  then have l: "length n = 5" by (auto dest: arg_cong [where f = length])
  have "\<not> has_extension ''.jpg'' n" using h l
    by (cases n) (simp_all add: has_extension_def)
  then show ?thesis using has_extension_whole [OF h] l by (simp add: strip_extension_def)
next
  assume h: "map to_lower n = ''.jpg''"
  then have l: "length n = 4" by (auto dest: arg_cong [where f = length])
  show ?thesis using has_extension_whole [OF h] l by (simp add: strip_extension_def)
next
  assume h: "map to_lower n = ''.png''"
  then have l: "length n = 4" by (auto dest: arg_cong [where f = length])
  have "\<not> has_extension ''.jpg'' n" "\<not> has_extension ''.jpeg'' n" using h l
    by (simp_all add: has_extension_def)
  then show ?thesis using has_extension_whole [OF h] l by (simp add: strip_extension_def)
qed

lemma strip_extension_Cons:
  assumes "\<not> match_here (c # cs)"
  shows "strip_extension (c # cs) = c # strip_extension cs"
proof -
  have e: "has_extension ''.jpg'' (c # cs) = has_extension ''.jpg'' cs"
    "has_extension ''.jpeg'' (c # cs) = has_extension ''.jpeg'' cs"
    "has_extension ''.png'' (c # cs) = has_extension ''.png'' cs"
    using assms unfolding match_here_iff has_extension_Cons by (simp_all only: de_Morgan_disj simp_thms)
  have t4: "take (length (c # cs) - 4) (c # cs) = c # take (length cs - 4) cs" if "4 \<le> length cs"
  proof -
    from that have "length (c # cs) - 4 = Suc (length cs - 4)" by simp
    then show ?thesis by (simp only: take_Suc_Cons)
  qed
  have t5: "take (length (c # cs) - 5) (c # cs) = c # take (length cs - 5) cs" if "5 \<le> length cs"
  proof -
    from that have "length (c # cs) - 5 = Suc (length cs - 5)" by simp
    then show ?thesis by (simp only: take_Suc_Cons)
  qed
  have l: "has_extension ''.jpg'' cs \<Longrightarrow> 4 \<le> length cs"
    "has_extension ''.jpeg'' cs \<Longrightarrow> 5 \<le> length cs"
    "has_extension ''.png'' cs \<Longrightarrow> 4 \<le> length cs"
    by (simp_all add: has_extension_def)
  show ?thesis
    unfolding strip_extension_def e
    using t4 t5 l by (simp only: split: if_splits) blast
qed

lemma replace_ext_eq: "replace_ext n = strip_extension n"
proof (induction n)
  case Nil
  then show ?case by (simp add: strip_extension_def has_extension_def)
next
  case (Cons c cs)
  then show ?case
    by (simp add: strip_extension_match strip_extension_Cons)
qed

text \<open>
  C8. For every source file name, the computed output name is the name with one trailing
  \<^verbatim>\<open>.jpg\<close>, \<^verbatim>\<open>.jpeg\<close> or \<^verbatim>\<open>.png\<close> (letters in either case) removed and
  \<^verbatim>\<open>.webp\<close> appended: the regular-expression replacement of the code computes the
  function the specification describes.
\<close>

theorem outputNameOf_spec: "outputNameOf n = spec_output_name n"
  by (simp add: outputNameOf_def spec_output_name_def replace_ext_eq)

theorem outputNameOf_spec_witness:
  "outputNameOf ''holiday.photo.JPeG'' = ''holiday.photo.webp'' \<and>
   spec_output_name ''holiday.photo.JPeG'' = ''holiday.photo.webp''"
proof -
  have "spec_output_name ''holiday.photo.JPeG'' = ''holiday.photo.webp''"
    by code_simp
  with outputNameOf_spec [of "''holiday.photo.JPeG''"] show ?thesis
    by simp
qed

subsection \<open>The conversion service\<close>

lemma convertImageToWebP_outcome:
  "fst (convertImageToWebP c f q b) = serviceOutcome c f q"
  by (simp add: convertImageToWebP_def serviceOutcome_def createObjectURL_def Let_def
      split: sum.splits option.splits)

lemma convertImageToWebP_success_released:
  assumes "convertImageToWebP c f q b = (Inr blob, b')"
  shows "released b b'"
  using assms
  by (auto simp: convertImageToWebP_def released_def createObjectURL_def revokeObjectURL_def
      Let_def list_all_iff split: if_splits sum.splits option.splits)

lemma convertImageToWebP_failure_leaks:
  assumes "convertImageToWebP c f q b = (Inl e, b')" and "browser_ok b"
  shows "\<not> released b b'"
  using assms
  by (auto simp: convertImageToWebP_def released_def createObjectURL_def revokeObjectURL_def browser_ok_def
      Let_def list_all_iff split: if_splits sum.splits option.splits)

text \<open>
  C5. On a call that throws, the resources stay acquired. With a file the browser decodes
  on neither path, the object URL made for the image element is never revoked; with a
  file whose bitmap decodes and whose canvas export fails, the bitmap is never closed.
\<close>

theorem convertImageToWebP_failure_keeps_resources:
  "fst (convertImageToWebP undecodable photoJpg (4 / 5) freshBrowser) =
     Inl (JsError ''The source image cannot be decoded.'') \<and>
   urlsCreated (snd (convertImageToWebP undecodable photoJpg (4 / 5) freshBrowser)) = 1 \<and>
   urlsRevoked (snd (convertImageToWebP undecodable photoJpg (4 / 5) freshBrowser)) = [] \<and>
   \<not> released freshBrowser (snd (convertImageToWebP undecodable photoJpg (4 / 5) freshBrowser)) \<and>
   fst (convertImageToWebP exportFails photoJpg (4 / 5) freshBrowser) =
     Inl (JsError ''Blob conversion failed'') \<and>
   bitmapsCreated (snd (convertImageToWebP exportFails photoJpg (4 / 5) freshBrowser)) = 1 \<and>
   bitmapsClosed (snd (convertImageToWebP exportFails photoJpg (4 / 5) freshBrowser)) = [] \<and>
   \<not> released freshBrowser (snd (convertImageToWebP exportFails photoJpg (4 / 5) freshBrowser))"
  by (simp add: convertImageToWebP_def renderAndExport_def undecodable_def exportFails_def
      freshBrowser_def createObjectURL_def released_def)

subsection \<open>Batch conversion\<close>

lemma convertImageToWebP_urlsCreated:
  "urlsCreated b \<le> urlsCreated (snd (convertImageToWebP c f q b))"
  by (simp add: convertImageToWebP_def createObjectURL_def revokeObjectURL_def Let_def
      split: sum.splits option.splits)

lemma callService_result:
  "fst (callService env r s) =
     serviceOutcome (conversion env (length (conversions s))) (itemFile (heap s r)) (quality s)"
  using convertImageToWebP_outcome
    [of "conversion env (length (conversions s))" "itemFile (heap s r)" "quality s" "browser s"]
  by (simp add: callService_def case_prod_beta)

lemma callService_state:
  "heap (snd (callService env r s)) = heap s"
  "items (snd (callService env r s)) = items s"
  "quality (snd (callService env r s)) = quality s"
  "allocated (snd (callService env r s)) = allocated s"
  "selectedPreviewItem (snd (callService env r s)) = selectedPreviewItem s"
  "view (snd (callService env r s)) = view s"
  "timers (snd (callService env r s)) = timers s"
  "conversions (snd (callService env r s)) = conversions s @ [(r, status (heap s r))]"
  by (simp_all add: callService_def case_prod_beta)

lemma callService_urlsCreated:
  "urlsCreated (browser s) \<le> urlsCreated (browser (snd (callService env r s)))"
  using convertImageToWebP_urlsCreated
    [of "browser s" "conversion env (length (conversions s))" "itemFile (heap s r)" "quality s"]
  by (simp add: callService_def case_prod_beta)

lemma convertItem_skip: "\<not> eligible s r \<Longrightarrow> convertItem env r s = s"
  by (simp add: convertItem_def)

lemma convertItem_frame:
  "items (convertItem env r s) = items s"
  "quality (convertItem env r s) = quality s"
  "allocated (convertItem env r s) = allocated s"
  "selectedPreviewItem (convertItem env r s) = selectedPreviewItem s"
  "r' \<noteq> r \<Longrightarrow> heap (convertItem env r s) r' = heap s r'"
  by (simp_all add: convertItem_def Let_def callService_state createObjectURL_def
      case_prod_beta split: sum.splits)



lemma convertItem_conversions:
  "conversions (convertItem env r s) =
     conversions s @ (if eligible s r then [(r, Converting)] else [])"
  by (simp add: convertItem_def Let_def callService_state createObjectURL_def
      case_prod_beta split: sum.splits)

lemma convertItem_eligible:
  assumes "eligible s r"
  shows "case serviceOutcome (conversion env (length (conversions s)))
                (itemFile (heap s r)) (quality s) of
           Inr blob \<Rightarrow>
             \<exists>url. urlsCreated (browser s) \<le> url \<and>
                   url < urlsCreated (browser (convertItem env r s)) \<and>
                   heap (convertItem env r s) r =
                     (heap s r)\<lparr>status := Done, outputBlob := Some blob, outputUrl := Some url,
                       outputName := Some (outputNameOf (name (itemFile (heap s r)))),
                       sizeAfter := Some (bsize blob)\<rparr>
         | Inl err \<Rightarrow>
             heap (convertItem env r s) r =
               (heap s r)\<lparr>status := Error, errorMessage := Some (failureMessage err)\<rparr>"
proof -
  let ?s1 = "s\<lparr>heap := (heap s)(r := (heap s r)\<lparr>status := Converting\<rparr>)\<rparr>"
  have res: "fst (callService env r ?s1) =
      serviceOutcome (conversion env (length (conversions s))) (itemFile (heap s r)) (quality s)"
    by (simp add: callService_result)
  have mono: "urlsCreated (browser s) \<le> urlsCreated (browser (snd (callService env r ?s1)))"
    using callService_urlsCreated [of ?s1 env r] by simp
  show ?thesis
  proof (cases "fst (callService env r ?s1)")
    case (Inl err)
    then show ?thesis
      using assms res
      by (simp add: convertItem_def Let_def case_prod_beta callService_state)
  next
    case (Inr blob)
    have "heap (convertItem env r s) r =
        (heap s r)\<lparr>status := Done, outputBlob := Some blob,
          outputUrl := Some (urlsCreated (browser (snd (callService env r ?s1)))),
          outputName := Some (outputNameOf (name (itemFile (heap s r)))),
          sizeAfter := Some (bsize blob)\<rparr>"
      using assms Inr
      by (simp add: convertItem_def Let_def case_prod_beta callService_state createObjectURL_def)
    moreover have "urlsCreated (browser (convertItem env r s)) =
        Suc (urlsCreated (browser (snd (callService env r ?s1))))"
      using assms Inr
      by (simp add: convertItem_def Let_def case_prod_beta callService_state createObjectURL_def)
    moreover have so: "serviceOutcome (conversion env (length (conversions s)))
        (itemFile (heap s r)) (quality s) = Inr blob"
      using res Inr by simp
    ultimately show ?thesis
      using mono unfolding so sum.case
      by (intro exI [of _ "urlsCreated (browser (snd (callService env r ?s1)))"]) simp
  qed
qed


lemma convertAll_loop_frame:
  "items (convertAll_loop env rs s) = items s"
  "quality (convertAll_loop env rs s) = quality s"
  "allocated (convertAll_loop env rs s) = allocated s"
  "selectedPreviewItem (convertAll_loop env rs s) = selectedPreviewItem s"
  by (induction rs arbitrary: s) (simp_all add: convertItem_frame)



lemma eligible_convertItem_other:
  "x \<noteq> r \<Longrightarrow> eligible (convertItem env r s) x = eligible s x"
  by (simp add: eligible_def convertItem_frame)

lemma convertAll_loop_conversions:
  "distinct rs \<Longrightarrow>
   conversions (convertAll_loop env rs s) =
     conversions s @ map (\<lambda>r. (r, Converting)) (filter (eligible s) rs)"
proof (induction rs arbitrary: s)
  case Nil
  then show ?case by simp
next
  case (Cons r rs)
  have "filter (eligible (convertItem env r s)) rs = filter (eligible s) rs"
  proof (rule filter_cong [OF refl])
    fix x assume "x \<in> set rs"
    with Cons.prems have "x \<noteq> r" by auto
    then show "eligible (convertItem env r s) x = eligible s x"
      by (rule eligible_convertItem_other)
  qed
  then show ?case
    using Cons by (simp add: convertItem_conversions)
qed



subsection \<open>Archive export\<close>

lemma zip_file_fresh: "n \<notin> fst ` set z \<Longrightarrow> zip_file n d z = z @ [(n, d)]"
  by (induction z) auto

lemma zip_loop_added:
  "snd (zip_loop h rs z added) = added + length (filter (isDone h) rs)"
  by (induction rs arbitrary: z added) (auto simp: isDone_def split: option.splits)

lemma zip_loop_distinct:
  assumes "distinct (map fst z @ map (\<lambda>r. entryName (h r)) (filter (isDone h) rs))"
  shows "fst (zip_loop h rs z added) = z @ map (entryOf h) (filter (isDone h) rs)"
  using assms
proof (induction rs arbitrary: z added)
  case Nil
  then show ?case by simp
next
  case (Cons r rs)
  show ?case
  proof (cases "isDone h r")
    case False
    then have "zip_loop h (r # rs) z added = zip_loop h rs z added"
      by (auto simp: isDone_def split: option.splits)
    then show ?thesis using Cons False by simp
  next
    case True
    then obtain blob where b: "outputBlob (h r) = Some blob" "status (h r) = Done"
      by (auto simp: isDone_def)
    have fresh: "entryName (h r) \<notin> fst ` set z"
      using Cons.prems True by auto
    have step: "zip_loop h (r # rs) z added =
        zip_loop h rs (z @ [entryOf h r]) (added + 1)"
      using b fresh by (simp add: zip_file_fresh entryOf_def)
    have "distinct (map fst (z @ [entryOf h r]) @ map (\<lambda>r. entryName (h r)) (filter (isDone h) rs))"
      using Cons.prems True by (auto simp: entryOf_def)
    from Cons.IH [OF this] show ?thesis
      using True step by simp
  qed
qed

lemma downloadAllZip_none_done:
  assumes "filter (isDone (heap s)) (items s) = []"
  shows "downloadAllZip s = s"
  using zip_loop_added [of "heap s" "items s" "[]" 0] assms
  by (simp add: downloadAllZip_def case_prod_beta)

lemma downloadAllZip_distinct_names:
  assumes "filter (isDone (heap s)) (items s) \<noteq> []"
    and "distinct (map (\<lambda>r. entryName (heap s r)) (filter (isDone (heap s)) (items s)))"
  shows "archives (downloadAllZip s) =
           archives s @ [map (entryOf (heap s)) (filter (isDone (heap s)) (items s))]"
    and "downloads (downloadAllZip s) =
           downloads s @ [(urlsCreated (browser s), ''converted-webp.zip'')]"
  using zip_loop_added [of "heap s" "items s" "[]" 0]
    zip_loop_distinct [of "[]" "heap s" "items s" 0] assms
  by (simp_all add: downloadAllZip_def downloadBlob_def createObjectURL_def case_prod_beta)

subsection \<open>Accepting files\<close>

lemma handleFile_ref: "fst (handleFile env f s) = allocated s"
  by (simp add: handleFile_def newId_def alloc_def createObjectURL_def Let_def case_prod_beta)

lemma handleFile_state:
  "allocated (snd (handleFile env f s)) = Suc (allocated s)"
  "items (snd (handleFile env f s)) = items s"
  "conversions (snd (handleFile env f s)) = conversions s"
  "selectedPreviewItem (snd (handleFile env f s)) = selectedPreviewItem s"
  "timers (snd (handleFile env f s)) = timers s"
  "quality (snd (handleFile env f s)) = quality s"
  "urlsRevoked (browser (snd (handleFile env f s))) = urlsRevoked (browser s)"
  "r \<noteq> allocated s \<Longrightarrow> heap (snd (handleFile env f s)) r = heap s r"
  by (simp_all add: handleFile_def newId_def alloc_def createObjectURL_def Let_def case_prod_beta)

lemma handleFile_urlsCreated:
  "urlsCreated (browser s) \<le> urlsCreated (browser (snd (handleFile env f s)))"
  by (simp add: handleFile_def newId_def alloc_def createObjectURL_def Let_def case_prod_beta)

lemma handleFile_item:
  "addedFor f (urlsCreated (browser s)) (urlsCreated (browser (snd (handleFile env f s))))
     (heap (snd (handleFile env f s)) (allocated s))"
  by (simp add: addedFor_def handleFile_def newId_def alloc_def createObjectURL_def Let_def
      case_prod_beta acceptedTypes_def unsupportedMessage_def)

lemma addedFor_mono: "addedFor f lo hi it \<Longrightarrow> lo' \<le> lo \<Longrightarrow> hi \<le> hi' \<Longrightarrow> addedFor f lo' hi' it"
  by (auto simp: addedFor_def split: option.splits if_splits)

lemma handleFiles_loop_refs:
  "fst (handleFiles_loop env fs newItems s) = newItems @ [allocated s ..< allocated s + length fs]"
proof (induction fs arbitrary: newItems s)
  case Nil
  then show ?case by simp
next
  case (Cons f fs)
  have "[allocated s ..< Suc (allocated s + length fs)] =
      allocated s # [Suc (allocated s) ..< Suc (allocated s + length fs)]"
    by (rule upt_conv_Cons) simp
  then show ?case
    using Cons [where newItems = "newItems @ [allocated s]" and s = "snd (handleFile env f s)"]
    by (simp add: case_prod_beta handleFile_ref handleFile_state del: upt_Suc)
qed

lemma handleFiles_loop_state:
  "allocated (snd (handleFiles_loop env fs newItems s)) = allocated s + length fs"
  "items (snd (handleFiles_loop env fs newItems s)) = items s"
  "conversions (snd (handleFiles_loop env fs newItems s)) = conversions s"
  "selectedPreviewItem (snd (handleFiles_loop env fs newItems s)) = selectedPreviewItem s"
  "timers (snd (handleFiles_loop env fs newItems s)) = timers s"
  "quality (snd (handleFiles_loop env fs newItems s)) = quality s"
  "urlsRevoked (browser (snd (handleFiles_loop env fs newItems s))) = urlsRevoked (browser s)"
  by (induction fs arbitrary: newItems s)
    (simp_all add: case_prod_beta handleFile_state)

lemma handleFiles_loop_heap_old:
  "r < allocated s \<Longrightarrow> heap (snd (handleFiles_loop env fs newItems s)) r = heap s r"
  by (induction fs arbitrary: newItems s) (simp_all add: case_prod_beta handleFile_state)

lemma handleFiles_loop_urlsCreated:
  "urlsCreated (browser s) \<le> urlsCreated (browser (snd (handleFiles_loop env fs newItems s)))"
proof (induction fs arbitrary: newItems s)
  case Nil
  then show ?case by simp
next
  case (Cons f fs)
  show ?case
    using handleFile_urlsCreated [of s env f]
      Cons [where newItems = "newItems @ [fst (handleFile env f s)]" and s = "snd (handleFile env f s)"]
    by (simp add: case_prod_beta)
qed

lemma handleFiles_loop_item:
  "i < length fs \<Longrightarrow>
   addedFor (fs ! i) (urlsCreated (browser s))
     (urlsCreated (browser (snd (handleFiles_loop env fs newItems s))))
     (heap (snd (handleFiles_loop env fs newItems s)) (allocated s + i))"
proof (induction fs arbitrary: newItems s i)
  case Nil
  then show ?case by simp
next
  case (Cons f fs)
  let ?s1 = "snd (handleFile env f s)"
  let ?n1 = "newItems @ [fst (handleFile env f s)]"
  have unfold: "handleFiles_loop env (f # fs) newItems s = handleFiles_loop env fs ?n1 ?s1"
    by (simp add: case_prod_beta)
  show ?case
  proof (cases i)
    case 0
    have "heap (snd (handleFiles_loop env fs ?n1 ?s1)) (allocated s) = heap ?s1 (allocated s)"
      by (rule handleFiles_loop_heap_old) (simp add: handleFile_state)
    then show ?thesis
      unfolding unfold 0
      using addedFor_mono [OF handleFile_item [of f s env] le_refl
          handleFiles_loop_urlsCreated [of ?s1 env fs ?n1]]
      by simp
  next
    case (Suc j)
    then have "j < length fs" using Cons.prems by simp
    from Cons.IH [OF this, where s = ?s1 and newItems = ?n1]
    show ?thesis
      unfolding unfold Suc
      using handleFile_urlsCreated [of s env f]
      by (auto simp: handleFile_state intro: addedFor_mono)
  qed
qed

lemma handleFiles_state:
  "items (handleFiles env fs s) = items s @ [allocated s ..< allocated s + length fs]"
  "allocated (handleFiles env fs s) = allocated s + length fs"
  "conversions (handleFiles env fs s) = conversions s"
  "selectedPreviewItem (handleFiles env fs s) = selectedPreviewItem s"
  "quality (handleFiles env fs s) = quality s"
  "browser (handleFiles env fs s) = browser (snd (handleFiles_loop env fs [] s))"
  "heap (handleFiles env fs s) = heap (snd (handleFiles_loop env fs [] s))"
  by (simp_all add: handleFiles_def Let_def case_prod_beta handleFiles_loop_state handleFiles_loop_refs)

text \<open>
  C2, as the code has it. For every incoming file \<^verbatim>\<open>handleFiles\<close> appends one item. If
  the declared media type is neither \<^verbatim>\<open>image/jpeg\<close> nor \<^verbatim>\<open>image/png\<close> the item has
  status \<^verbatim>\<open>error\<close>, the message \<^verbatim>\<open>Unsupported file type. Please upload JPEG or PNG.\<close>
  and no thumbnail; otherwise it has status \<^verbatim>\<open>queued\<close> and a thumbnail URL created by
  this call. \<^verbatim>\<open>handleFiles\<close> itself calls the conversion service for no item.
\<close>

theorem handleFiles_adds_items:
  assumes "i < length fs"
  shows "items (handleFiles env fs s) = items s @ [allocated s ..< allocated s + length fs] \<and>
         addedFor (fs ! i) (urlsCreated (browser s)) (urlsCreated (browser (handleFiles env fs s)))
           (heap (handleFiles env fs s) (allocated s + i)) \<and>
         conversions (handleFiles env fs s) = conversions s"
  using handleFiles_loop_item [OF assms, of s env "[]"]
  by (simp add: handleFiles_state)

theorem handleFiles_adds_items_witness:
  "0 < length [animGif, photoJpg] \<and>
   items uploaded = [0, 1] \<and>
   itemFile (heap uploaded 0) = animGif \<and>
   status (heap uploaded 0) = Error \<and>
   errorMessage (heap uploaded 0) = Some ''Unsupported file type. Please upload JPEG or PNG.'' \<and>
   thumbnailUrl (heap uploaded 0) = None \<and>
   conversions uploaded = []"
proof -
  have l: "0 < length [animGif, photoJpg]" by simp
  have t: "type animGif = ''image/gif''" by (simp add: animGif_def)
  have i: "allocated initial = 0" "items initial = []" "conversions initial = []"
    by (simp_all add: initial_def)
  show ?thesis
    using handleFiles_adds_items [OF l, where env = sampleEnv and s = initial]
    unfolding uploaded_def [symmetric] i addedFor_def
    by (simp add: t)
qed

text \<open>
  The specification's sentence fails as it is written: an item rejected for its media type
  is in status \<^verbatim>\<open>error\<close>, and \<^verbatim>\<open>convertAll\<close> hands every item in that status to
  the conversion service. Here a GIF and a JPEG are dropped and the batch is run.
\<close>

theorem unsupported_item_is_converted:
  "type animGif \<noteq> ''image/jpeg'' \<and> type animGif \<noteq> ''image/png'' \<and>
   uploaded = handleFiles sampleEnv [animGif, photoJpg] initial \<and>
   itemFile (heap uploaded 0) = animGif \<and>
   status (heap uploaded 0) = Error \<and>
   errorMessage (heap uploaded 0) = Some ''Unsupported file type. Please upload JPEG or PNG.'' \<and>
   conversions uploaded = [] \<and>
   conversions (convertAll sampleEnv uploaded) = [(0, Converting), (1, Converting)] \<and>
   status (heap (convertAll sampleEnv uploaded) 0) = Done"
proof -
  have el: "eligible uploaded 0" "eligible uploaded (Suc 0)"
    by (simp_all add: eligible_def uploaded_fields)
  have log: "conversions (convertAll sampleEnv uploaded) = [(0, Converting), (1, Converting)]"
    unfolding convertAll_def
    using convertAll_loop_conversions [of "items uploaded" sampleEnv uploaded]
    by (simp add: uploaded_fields el)
  have so: "serviceOutcome (conversion sampleEnv 0) animGif (4 / 5) = Inr \<lparr>bsize = 51, bdata = 512\<rparr>"
    by (simp add: serviceOutcome_def renderAndExport_def sampleEnv_def workingBrowser_def animGif_def)
  have "status (heap (convertItem sampleEnv 0 uploaded) 0) = Done"
    using convertItem_eligible [OF el(1), of sampleEnv]
    by (auto simp: uploaded_fields so)
  then have "status (heap (convertAll_loop sampleEnv [Suc 0] (convertItem sampleEnv 0 uploaded)) 0) = Done"
    by (simp add: convertItem_frame)
  then have fin: "status (heap (convertAll sampleEnv uploaded) 0) = Done"
    by (simp add: convertAll_def uploaded_fields)
  have t: "type animGif = ''image/gif''" by (simp add: animGif_def)
  show ?thesis
    using log fin uploaded_def
    by (simp add: uploaded_fields unsupportedMessage_def t)
qed

subsection \<open>What every handler preserves\<close>

lemma outputNameOf_nonempty: "outputNameOf n \<noteq> []"
  by (simp add: outputNameOf_def)

lemma set_without: "set (without i xs) \<subseteq> set xs"
  by (auto simp: without_def dest: in_set_takeD in_set_dropD)

lemma distinct_without: "distinct xs \<Longrightarrow> distinct (without i xs)"
proof (induction xs arbitrary: i)
  case Nil
  then show ?case by (simp add: without_def)
next
  case (Cons x xs)
  show ?case
  proof (cases i)
    case 0
    then show ?thesis using Cons.prems by (simp add: without_def)
  next
    case (Suc j)
    have "x \<notin> set (without j xs)"
      using Cons.prems set_without [of j xs] by auto
    then show ?thesis
      using Cons.IH [of j] Cons.prems Suc by (simp add: without_def)
  qed
qed

text \<open>A handler that adds no item to the queue and leaves the objects that exist as
  they are, or changes fields that the invariant does not read, keeps the invariants.\<close>

lemma invariant_subqueue:
  assumes sub: "set (items s') \<subseteq> set (items s)"
    and dist: "distinct (items s) \<Longrightarrow> distinct (items s')"
    and al: "allocated s \<le> allocated s'"
    and st: "\<And>r. r < allocated s \<Longrightarrow> status (heap s' r) = status (heap s r)"
    and w: "wellFormed s"
  shows "wellFormed s'" and "settled s \<Longrightarrow> settled s'"
proof -
  have old: "r \<in> set (items s) \<and> r < allocated s" if "r \<in> set (items s')" for r
    using that sub w by (auto simp: wellFormed_def list_all_iff)
  then have "r < allocated s'" if "r \<in> set (items s')" for r
    using that al by fastforce
  then show "wellFormed s'"
    using w dist by (simp add: wellFormed_def list_all_iff)
  show "settled s'" if "settled s"
    using that old st by (auto simp: settled_def list_all_iff)
qed

lemma recorded_subqueue:
  assumes "set (items s') \<subseteq> set (items s)"
    and "\<And>r. r < allocated s \<Longrightarrow> itemRecorded P (heap s r) \<Longrightarrow> itemRecorded P (heap s' r)"
    and "wellFormed s"
  shows "queueRecorded P s \<Longrightarrow> queueRecorded P s'"
  using assms by (auto simp: queueRecorded_def wellFormed_def list_all_iff)

text \<open>The automatic selection creates an object: it leaves the objects that exist and
  the queue as they are.\<close>

lemma fireTimer_frame:
  "items (fireTimer k s) = items s"
  "allocated s \<le> allocated (fireTimer k s)"
  "r < allocated s \<Longrightarrow> heap (fireTimer k s) r = heap s r"
  by (simp_all add: fireTimer_def alloc_def Let_def split: timer.splits option.splits)

lemma deleteItem_frame:
  "heap (deleteItem i s) = heap s"
  "allocated (deleteItem i s) = allocated s"
  "items (deleteItem i s) =
     (case findIndex (\<lambda>r. item_id (heap s r) = i) (items s) of
        None \<Rightarrow> items s
      | Some index \<Rightarrow> without index (items s))"
  by (simp_all add: deleteItem_def Let_def split: option.splits)

lemma clearAll_frame:
  "heap (clearAll s) = heap s"
  "allocated (clearAll s) = allocated s"
  "items (clearAll s) = []"
  "selectedPreviewItem (clearAll s) = None"
  by (simp_all add: clearAll_def)

lemma downloadAllZip_frame:
  "heap (downloadAllZip s) = heap s"
  "allocated (downloadAllZip s) = allocated s"
  "items (downloadAllZip s) = items s"
  by (simp_all add: downloadAllZip_def downloadBlob_def createObjectURL_def Let_def case_prod_beta)

lemma onWebPGenerated_frame:
  "items (onWebPGenerated blob sz s) = items s"
  "allocated (onWebPGenerated blob sz s) = allocated s"
  "status (heap (onWebPGenerated blob sz s) r) = status (heap s r)"
  "itemRecorded P (heap s r) \<Longrightarrow> itemRecorded P (heap (onWebPGenerated blob sz s) r)"
  by (simp_all add: onWebPGenerated_def createObjectURL_def Let_def case_prod_beta
      itemRecorded_def outputNameOf_nonempty split: option.splits)

lemma viewEffect1_frame:
  "items (viewEffect1 env s) = items s"
  "allocated (viewEffect1 env s) = allocated s"
  "status (heap (viewEffect1 env s) r) = status (heap s r)"
  "itemRecorded P (heap s r) \<Longrightarrow> itemRecorded P (heap (viewEffect1 env s) r)"
  by (simp_all add: viewEffect1_def createObjectURL_def Let_def case_prod_beta
      onWebPGenerated_frame callService_state split: option.splits sum.splits)

lemma viewEffect2_frame:
  "items (viewEffect2 env s) = items s"
  "allocated (viewEffect2 env s) = allocated s"
  "status (heap (viewEffect2 env s) r) = status (heap s r)"
  "itemRecorded P (heap s r) \<Longrightarrow> itemRecorded P (heap (viewEffect2 env s) r)"
  by (simp_all add: viewEffect2_def createObjectURL_def Let_def case_prod_beta
      onWebPGenerated_frame callService_state split: option.splits sum.splits)

lemma viewTeardown_frame:
  "items (viewTeardown s) = items s"
  "allocated (viewTeardown s) = allocated s"
  "heap (viewTeardown s) = heap s"
  by (simp_all add: viewTeardown_def)

lemma addedFor_fresh:
  "addedFor f lo hi it \<Longrightarrow> status it \<noteq> Converting"
  "addedFor f lo hi it \<Longrightarrow> P unsupportedMessage \<Longrightarrow> itemRecorded P it"
  by (auto simp: addedFor_def itemRecorded_def unsupportedMessage_def split: if_splits)

lemma handleFiles_heap_old:
  "r < allocated s \<Longrightarrow> heap (handleFiles env fs s) r = heap s r"
  by (simp add: handleFiles_state handleFiles_loop_heap_old)

lemma handleFiles_new_item:
  assumes "r \<in> set [allocated s ..< allocated s + length fs]"
  shows "status (heap (handleFiles env fs s) r) \<noteq> Converting"
    and "P unsupportedMessage \<Longrightarrow> itemRecorded P (heap (handleFiles env fs s) r)"
proof -
  from assms obtain i where i: "i < length fs" "r = allocated s + i"
    by (auto simp: nat_le_iff_add)
  have a: "addedFor (fs ! i) (urlsCreated (browser s))
      (urlsCreated (browser (handleFiles env fs s))) (heap (handleFiles env fs s) r)"
    using handleFiles_loop_item [OF i(1), of s env "[]"] i(2) by (simp add: handleFiles_state)
  show "status (heap (handleFiles env fs s) r) \<noteq> Converting"
    using a by (rule addedFor_fresh)
  show "itemRecorded P (heap (handleFiles env fs s) r)" if "P unsupportedMessage"
    using a that by (rule addedFor_fresh)
qed

lemma handleFiles_invariant:
  assumes w: "wellFormed s"
  shows "wellFormed (handleFiles env fs s)"
    and "settled s \<Longrightarrow> settled (handleFiles env fs s)"
    and "P unsupportedMessage \<Longrightarrow> queueRecorded P s \<Longrightarrow> queueRecorded P (handleFiles env fs s)"
proof -
  have old: "r < allocated s" if "r \<in> set (items s)" for r
    using w that by (simp add: wellFormed_def list_all_iff)
  show "wellFormed (handleFiles env fs s)"
    using w old by (fastforce simp: wellFormed_def list_all_iff handleFiles_state)
  show "settled (handleFiles env fs s)" if "settled s"
    unfolding settled_def list_all_iff
  proof
    fix r assume "r \<in> set (items (handleFiles env fs s))"
    then consider "r \<in> set (items s)" | "r \<in> set [allocated s ..< allocated s + length fs]"
      by (auto simp: handleFiles_state)
    then show "status (heap (handleFiles env fs s) r) \<noteq> Converting"
    proof cases
      case 1
      then show ?thesis
        using that old [OF 1] by (simp add: handleFiles_heap_old settled_def list_all_iff)
    next
      case 2
      then show ?thesis by (rule handleFiles_new_item)
    qed
  qed
  show "queueRecorded P (handleFiles env fs s)" if p: "P unsupportedMessage" and "queueRecorded P s"
    unfolding queueRecorded_def list_all_iff
  proof
    fix r assume "r \<in> set (items (handleFiles env fs s))"
    then consider "r \<in> set (items s)" | "r \<in> set [allocated s ..< allocated s + length fs]"
      by (auto simp: handleFiles_state)
    then show "itemRecorded P (heap (handleFiles env fs s) r)"
    proof cases
      case 1
      then show ?thesis
        using that old [OF 1] by (simp add: handleFiles_heap_old queueRecorded_def list_all_iff)
    next
      case 2
      then show ?thesis using p by (rule handleFiles_new_item)
    qed
  qed
qed

lemma serviceOutcome_message:
  assumes "messagesSatisfy P env"
    and "serviceOutcome (conversion env k) f q = Inl err"
  shows "P (failureMessage err)"
  using assms
  by (cases err)
    (auto simp: serviceOutcome_def renderAndExport_def failureMessage_def messagesSatisfy_def
      split: if_splits option.splits)

lemma convertItem_status:
  assumes "eligible s r"
  shows "status (heap (convertItem env r s) r) = Done \<or> status (heap (convertItem env r s) r) = Error"
  using convertItem_eligible [OF assms, of env]
  by (cases "serviceOutcome (conversion env (length (conversions s)))
                (itemFile (heap s r)) (quality s)") auto

lemma convertItem_finished:
  assumes "status (heap s x) = Done \<or> status (heap s x) = Error \<or>
           (x = r \<and> status (heap s x) \<noteq> Converting)"
  shows "status (heap (convertItem env r s) x) = Done \<or> status (heap (convertItem env r s) x) = Error"
proof (cases "x = r \<and> eligible s r")
  case True
  then show ?thesis using convertItem_status by blast
next
  case False
  then have "heap (convertItem env r s) x = heap s x"
    by (auto simp: convertItem_skip convertItem_frame)
  moreover have "status (heap s x) = Done \<or> status (heap s x) = Error"
    using assms False by (cases "status (heap s x)") (auto simp: eligible_def)
  ultimately show ?thesis by simp
qed

lemma convertItem_not_converting:
  assumes "status (heap s x) \<noteq> Converting"
  shows "status (heap (convertItem env r s) x) \<noteq> Converting"
proof (cases "x = r \<and> eligible s r")
  case True
  then show ?thesis using convertItem_status [of s r env] by auto
next
  case False
  then have "heap (convertItem env r s) x = heap s x"
    by (auto simp: convertItem_skip convertItem_frame)
  then show ?thesis using assms by simp
qed

lemma convertAll_loop_finished_stable:
  "status (heap s x) = Done \<or> status (heap s x) = Error \<Longrightarrow>
   status (heap (convertAll_loop env rs s) x) = Done \<or>
   status (heap (convertAll_loop env rs s) x) = Error"
proof (induction rs arbitrary: s)
  case Nil
  then show ?case by simp
next
  case (Cons r rs)
  have "status (heap (convertItem env r s) x) = Done \<or> status (heap (convertItem env r s) x) = Error"
    using Cons.prems by (intro convertItem_finished) blast
  from Cons.IH [OF this] show ?case by simp
qed

lemma convertAll_loop_finishes:
  "list_all (\<lambda>r. status (heap s r) \<noteq> Converting) rs \<Longrightarrow> x \<in> set rs \<Longrightarrow>
   status (heap (convertAll_loop env rs s) x) = Done \<or>
   status (heap (convertAll_loop env rs s) x) = Error"
proof (induction rs arbitrary: s)
  case Nil
  then show ?case by simp
next
  case (Cons r rs)
  have rest: "list_all (\<lambda>r'. status (heap (convertItem env r s) r') \<noteq> Converting) rs"
    unfolding list_all_iff
  proof
    fix r' assume "r' \<in> set rs"
    with Cons.prems(1) have "status (heap s r') \<noteq> Converting"
      by (simp add: list_all_iff)
    then show "status (heap (convertItem env r s) r') \<noteq> Converting"
      by (rule convertItem_not_converting)
  qed
  show ?case
  proof (cases "x \<in> set rs")
    case True
    from Cons.IH [OF rest True] show ?thesis by simp
  next
    case False
    then have "x = r" using Cons.prems(2) by simp
    then have "status (heap (convertItem env r s) x) = Done \<or>
        status (heap (convertItem env r s) x) = Error"
      using Cons.prems(1) by (intro convertItem_finished) simp
    from convertAll_loop_finished_stable [OF this] show ?thesis by simp
  qed
qed

lemma convertAll_frame:
  "items (convertAll env s) = items s"
  "allocated (convertAll env s) = allocated s"
  "quality (convertAll env s) = quality s"
  "selectedPreviewItem (convertAll env s) = selectedPreviewItem s"
  by (simp_all add: convertAll_def convertAll_loop_frame)

lemma convertAll_finishes:
  assumes "settled s" and "r \<in> set (items s)"
  shows "status (heap (convertAll env s) r) = Done \<or> status (heap (convertAll env s) r) = Error"
  unfolding convertAll_def
  using assms convertAll_loop_finishes [of s "items s" r env]
  by (simp add: settled_def)

lemma convertItem_recorded:
  assumes ok: "messagesSatisfy P env"
    and c: "itemRecorded P (heap s x)"
  shows "itemRecorded P (heap (convertItem env r s) x)"
proof (cases "x = r \<and> eligible s r")
  case False
  then have "heap (convertItem env r s) x = heap s x"
    by (auto simp: convertItem_skip convertItem_frame)
  then show ?thesis using c by simp
next
  case True
  let ?out = "serviceOutcome (conversion env (length (conversions s)))
                (itemFile (heap s r)) (quality s)"
  show ?thesis
  proof (cases ?out)
    case (Inl err)
    have "P (failureMessage err)"
      using serviceOutcome_message [OF ok Inl] .
    then show ?thesis
      using convertItem_eligible [of s r env] True Inl by (simp add: itemRecorded_def)
  next
    case (Inr blob)
    then show ?thesis
      using convertItem_eligible [of s r env] True
      by (auto simp: itemRecorded_def outputNameOf_nonempty)
  qed
qed

lemma convertAll_loop_recorded:
  assumes ok: "messagesSatisfy P env"
  shows "itemRecorded P (heap s x) \<Longrightarrow> itemRecorded P (heap (convertAll_loop env rs s) x)"
proof (induction rs arbitrary: s)
  case Nil
  then show ?case by simp
next
  case (Cons r rs)
  from Cons.IH [OF convertItem_recorded [OF ok Cons.prems]] show ?case by simp
qed

lemma deleteItem_subqueue:
  "set (items (deleteItem i s)) \<subseteq> set (items s)"
  "distinct (items s) \<Longrightarrow> distinct (items (deleteItem i s))"
  using set_without [of _ "items s"] distinct_without [of "items s"]
  by (auto simp: deleteItem_frame split: option.splits)

lemma step_settled:
  assumes "wellFormed s" and "settled s"
  shows "wellFormed (step env e s) \<and> settled (step env e s)"
proof (cases e)
  case (HandleFiles fs)
  then show ?thesis using handleFiles_invariant(1,2) [OF assms(1)] assms(2) by simp
next
  case (FireTimer k)
  then show ?thesis
    using invariant_subqueue [of "fireTimer k s" s] assms by (simp add: fireTimer_frame)
next
  case ConvertAll
  have "wellFormed (convertAll env s)"
    using assms(1) by (simp add: wellFormed_def convertAll_frame)
  moreover have "settled (convertAll env s)"
    unfolding settled_def list_all_iff
  proof
    fix r assume "r \<in> set (items (convertAll env s))"
    then have "r \<in> set (items s)" by (simp add: convertAll_frame)
    from convertAll_finishes [OF assms(2) this, of env]
    show "status (heap (convertAll env s) r) \<noteq> Converting" by auto
  qed
  ultimately show ?thesis using ConvertAll by simp
next
  case (DeleteItem i)
  then show ?thesis
    using invariant_subqueue [of "deleteItem i s" s] assms deleteItem_subqueue [where i = i and s = s]
    by (simp add: deleteItem_frame)
next
  case ClearAll
  then show ?thesis
    by (simp add: wellFormed_def settled_def clearAll_frame)
next
  case DownloadAllZip
  then show ?thesis
    using invariant_subqueue [of "downloadAllZip s" s] assms by (simp add: downloadAllZip_frame)
next
  case (SetQuality q)
  then show ?thesis
    using assms by (simp add: wellFormed_def settled_def)
next
  case ViewEffect1
  then show ?thesis
    using invariant_subqueue [of "viewEffect1 env s" s] assms by (simp add: viewEffect1_frame)
next
  case ViewEffect2
  then show ?thesis
    using invariant_subqueue [of "viewEffect2 env s" s] assms by (simp add: viewEffect2_frame)
next
  case ViewTeardown
  then show ?thesis
    using invariant_subqueue [of "viewTeardown s" s] assms by (simp add: viewTeardown_frame)
qed

lemma step_recorded:
  assumes ok: "messagesSatisfy P env"
    and w: "wellFormed s" and c: "queueRecorded P s"
  shows "queueRecorded P (step env e s)"
proof (cases e)
  case (HandleFiles fs)
  have "P unsupportedMessage" using ok by (simp add: messagesSatisfy_def)
  from handleFiles_invariant(3) [OF w this c] show ?thesis using HandleFiles by simp
next
  case (FireTimer k)
  then show ?thesis
    using recorded_subqueue [of "fireTimer k s" s P] w c by (simp add: fireTimer_frame)
next
  case ConvertAll
  have "queueRecorded P (convertAll env s)"
    unfolding queueRecorded_def list_all_iff
  proof
    fix r assume "r \<in> set (items (convertAll env s))"
    then have "itemRecorded P (heap s r)"
      using c by (simp add: convertAll_frame queueRecorded_def list_all_iff)
    from convertAll_loop_recorded [OF ok this]
    show "itemRecorded P (heap (convertAll env s) r)" by (simp add: convertAll_def)
  qed
  then show ?thesis using ConvertAll by simp
next
  case (DeleteItem i)
  then show ?thesis
    using recorded_subqueue [of "deleteItem i s" s P] w c deleteItem_subqueue(1) [where i = i and s = s]
    by (simp add: deleteItem_frame)
next
  case ClearAll
  then show ?thesis
    by (simp add: queueRecorded_def clearAll_frame)
next
  case DownloadAllZip
  then show ?thesis
    using recorded_subqueue [of "downloadAllZip s" s P] w c by (simp add: downloadAllZip_frame)
next
  case (SetQuality q)
  then show ?thesis
    using c by (simp add: queueRecorded_def)
next
  case ViewEffect1
  then show ?thesis
    using recorded_subqueue [of "viewEffect1 env s" s P] w c by (simp add: viewEffect1_frame)
next
  case ViewEffect2
  then show ?thesis
    using recorded_subqueue [of "viewEffect2 env s" s P] w c by (simp add: viewEffect2_frame)
next
  case ViewTeardown
  then show ?thesis
    using recorded_subqueue [of "viewTeardown s" s P] w c by (simp add: viewTeardown_frame)
qed

lemma run_settled:
  "wellFormed s \<Longrightarrow> settled s \<Longrightarrow> wellFormed (run env es s) \<and> settled (run env es s)"
proof (induction es arbitrary: s)
  case Nil
  then show ?case by simp
next
  case (Cons e es)
  from step_settled [OF Cons.prems, of env e] Cons.IH [of "step env e s"]
  show ?case by simp
qed

text \<open>The queue of every reachable state holds distinct references, which is what the
  statements about \<^verbatim>\<open>convertAll\<close> and \<^verbatim>\<open>deleteItem\<close> ask of a state.\<close>

lemma reachable_wellFormed:
  "wellFormed initial" "wellFormed s \<Longrightarrow> settled s \<Longrightarrow> wellFormed (run env es s)"
  using run_settled [of s env es] by (simp_all add: wellFormed_def initial_def)

lemma run_recorded:
  assumes ok: "messagesSatisfy P env"
  shows "wellFormed s \<Longrightarrow> settled s \<Longrightarrow> queueRecorded P s \<Longrightarrow> queueRecorded P (run env es s)"
proof (induction es arbitrary: s)
  case Nil
  then show ?case by simp
next
  case (Cons e es)
  from step_settled [OF Cons.prems(1,2), of env e] step_recorded [OF ok Cons.prems(1,3), where e = e]
    Cons.IH [of "step env e s"]
  show ?case by simp
qed

lemma initial_invariant: "wellFormed initial" "settled initial" "queueRecorded P initial"
  by (simp_all add: wellFormed_def settled_def queueRecorded_def initial_def)

lemma queueComplete_recorded: "queueComplete s = queueRecorded (\<lambda>m. m \<noteq> []) s"
  by (simp add: queueComplete_def queueRecorded_def itemComplete_def)

text \<open>
  C3, as the code has it. In every state the page reaches from the empty queue, by any
  sequence of \<^verbatim>\<open>handleFiles\<close>, \<^verbatim>\<open>convertAll\<close>, \<^verbatim>\<open>deleteItem\<close> and
  \<^verbatim>\<open>clearAll\<close> (and of the other events of the model), every item of the queue with
  status \<^verbatim>\<open>done\<close> has an output blob, an output URL and a non-empty output name, and
  every item with status \<^verbatim>\<open>error\<close> has an error message. The message is the one of
  the error that was thrown, as it is: it is non-empty in every reachable state if the
  browser never rejects \<^verbatim>\<open>img.decode()\<close> with an error whose message is empty.
\<close>

theorem reachable_queue_recorded:
  "queueRecorded (\<lambda>m. True) (run env es initial) \<and>
   ((\<forall>k f. decode (conversion env k) f \<noteq> Some (JsError [])) \<longrightarrow>
    queueComplete (run env es initial))"
proof
  have "messagesSatisfy (\<lambda>m. True) env" by (simp add: messagesSatisfy_def)
  from run_recorded [OF this initial_invariant]
  show "queueRecorded (\<lambda>m. True) (run env es initial)" .
  show "(\<forall>k f. decode (conversion env k) f \<noteq> Some (JsError [])) \<longrightarrow>
    queueComplete (run env es initial)"
  proof
    assume "\<forall>k f. decode (conversion env k) f \<noteq> Some (JsError [])"
    then have "messagesSatisfy (\<lambda>m. m \<noteq> []) env"
      by (auto simp: messagesSatisfy_def unsupportedMessage_def)
    from run_recorded [OF this initial_invariant]
    show "queueComplete (run env es initial)" by (simp add: queueComplete_recorded)
  qed
qed

theorem reachable_queue_recorded_witness:
  "(\<forall>k f. decode (conversion failingEnv k) f \<noteq> Some (JsError [])) \<and>
   decode (conversion failingEnv 0) photoJpg = Some (JsError ''The source image cannot be decoded.'') \<and>
   items (run failingEnv [HandleFiles [animGif, photoJpg], ConvertAll] initial) = [0, 1] \<and>
   queueRecorded (\<lambda>m. True) (run failingEnv [HandleFiles [animGif, photoJpg], ConvertAll] initial) \<and>
   queueComplete (run failingEnv [HandleFiles [animGif, photoJpg], ConvertAll] initial)"
proof -
  have ok: "\<forall>k f. decode (conversion failingEnv k) f \<noteq> Some (JsError [])"
    by (simp add: failingEnv_def undecodable_def)
  have i: "allocated initial = 0" "items initial = []"
    by (simp_all add: initial_def)
  have "decode (conversion failingEnv 0) photoJpg = Some (JsError ''The source image cannot be decoded.'')"
    by (simp add: failingEnv_def undecodable_def)
  then show ?thesis
    using reachable_queue_recorded [of failingEnv "[HandleFiles [animGif, photoJpg], ConvertAll]"] ok
    by (simp add: convertAll_frame handleFiles_state i)
qed

text \<open>
  The specification's sentence fails as it is written: \<^verbatim>\<open>convertAll\<close> stores the
  message of the error it caught, whatever it is. Here a JPEG is dropped and the batch is
  run in a browser that decodes the file on neither path and rejects
  \<^verbatim>\<open>img.decode()\<close> with an error whose message is empty: the item ends in status
  \<^verbatim>\<open>error\<close> with the empty message.
\<close>

theorem empty_error_message:
  "items (run silentEnv [HandleFiles [photoJpg], ConvertAll] initial) = [0] \<and>
   status (heap (run silentEnv [HandleFiles [photoJpg], ConvertAll] initial) 0) = Error \<and>
   errorMessage (heap (run silentEnv [HandleFiles [photoJpg], ConvertAll] initial) 0) = Some [] \<and>
   \<not> queueComplete (run silentEnv [HandleFiles [photoJpg], ConvertAll] initial)"
proof -
  let ?s = "handleFiles silentEnv [photoJpg] initial"
  have f: "items ?s = [0]" "status (heap ?s 0) = Queued" "itemFile (heap ?s 0) = photoJpg"
    "conversions ?s = []" "quality ?s = 4 / 5"
    by (simp_all add: handleFiles_def handleFile_def initial_def silentEnv_def photoJpg_def
        acceptedTypes_def newId_def alloc_def createObjectURL_def Let_def)
  have el: "eligible ?s 0" by (simp add: eligible_def f)
  have so: "serviceOutcome (conversion silentEnv 0) photoJpg (4 / 5) = Inl (JsError [])"
    by (simp add: serviceOutcome_def silentEnv_def silentlyUndecodable_def)
  have r: "run silentEnv [HandleFiles [photoJpg], ConvertAll] initial = convertItem silentEnv 0 ?s"
    by (simp add: convertAll_def f)
  have c: "status (heap (convertItem silentEnv 0 ?s) 0) = Error"
    "errorMessage (heap (convertItem silentEnv 0 ?s) 0) = Some []"
    "items (convertItem silentEnv 0 ?s) = [0]"
    using convertItem_eligible [OF el, of silentEnv]
    by (simp_all add: f so failureMessage_def convertItem_frame)
  show ?thesis
    unfolding r using c
    by (simp add: queueComplete_def itemComplete_def itemRecorded_def)
qed

text \<open>
  C10. When \<^verbatim>\<open>convertAll\<close> has run to completion from a state the page reaches, every
  item of the queue is \<^verbatim>\<open>done\<close> or in \<^verbatim>\<open>error\<close>: none is left \<^verbatim>\<open>queued\<close> or
  \<^verbatim>\<open>converting\<close>.
\<close>

theorem convertAll_leaves_done_or_error:
  "list_all (\<lambda>r. status (heap (convertAll env (run env es initial)) r) = Done \<or>
                 status (heap (convertAll env (run env es initial)) r) = Error)
     (items (convertAll env (run env es initial)))"
  unfolding list_all_iff
  using convertAll_finishes [of "run env es initial" _ env]
    run_settled [OF initial_invariant(1,2), of env es]
  by (simp add: convertAll_frame)

theorem convertAll_leaves_done_or_error_witness:
  "items (convertAll sampleEnv (run sampleEnv [HandleFiles [animGif, photoJpg]] initial)) = [0, 1] \<and>
   list_all (\<lambda>r. status (heap (convertAll sampleEnv uploaded) r) = Done \<or>
                  status (heap (convertAll sampleEnv uploaded) r) = Error) [0, 1]"
  using convertAll_leaves_done_or_error [of sampleEnv "[HandleFiles [animGif, photoJpg]]"]
  unfolding run.simps step.simps uploaded_def [symmetric]
  by (simp add: convertAll_frame uploaded_fields)

subsection \<open>Sample sessions, evaluated step by step\<close>


lemma small_numbers:
  "Suc (Suc 0) = 2" "Suc (Suc (Suc 0)) = 3" "Suc (Suc (Suc (Suc 0))) = 4"
  "Suc (Suc (Suc (Suc (Suc 0)))) = 5" "Suc (Suc (Suc (Suc (Suc (Suc 0))))) = 6"
  "Suc (Suc (Suc (Suc (Suc (Suc (Suc 0)))))) = 7"
  by simp_all

lemmas eval_defs = small_numbers
  handleFiles_def handleFile_def initial_def sampleEnv_def photoJpg_def photoPng_def
  acceptedTypes_def newId_def alloc_def createObjectURL_def revokeObjectURL_def revokeIfSet_def
  revokeItem_def fireTimer_def convertAll_def convertItem_def eligible_def callService_def
  convertImageToWebP_def renderAndExport_def workingBrowser_def onWebPGenerated_def
  viewEffect1_def viewEffect2_def viewTeardown_def clearAll_def Let_def outputNameOf_samples


lemma twoFiles_states:
  defines "jpg \<equiv> \<lambda>st ou ob on sa.
     \<lparr>item_id = ''u'', itemFile = photoJpg, status = st, errorMessage = None,
      outputUrl = ou, outputBlob = ob, outputName = on, sizeBefore = 2048,
      sizeAfter = sa, thumbnailUrl = Some 0\<rparr>"
    and "png \<equiv> \<lambda>st ou ob on sa.
     \<lparr>item_id = ''uu'', itemFile = photoPng, status = st, errorMessage = None,
      outputUrl = ou, outputBlob = ob, outputName = on, sizeBefore = 4096,
      sizeAfter = sa, thumbnailUrl = Some 1\<rparr>"
    and "pg \<equiv> \<lambda>h al sel tm vw br cv.
     \<lparr>heap = h, allocated = al, items = [0, 1], quality = 4 / 5,
      selectedPreviewItem = sel, timers = tm, view = vw, browser = br, uuidCalls = 2,
      conversions = cv, archives = [], downloads = []\<rparr>"
  shows "twoPhotos =
      pg ((\<lambda>r. blankItem)
            (0 := jpg Done (Some 2) (Some \<lparr>bsize = 204, bdata = 2048\<rparr>) (Some ''photo.webp'') (Some 204),
             1 := png Done (Some 3) (Some \<lparr>bsize = 409, bdata = 4096\<rparr>) (Some ''photo.webp'') (Some 409)))
         2 None
         [AutoSelect [jpg Queued None None None None, png Queued None None None None]]
         \<lparr>originalUrl = None, webpUrl = None\<rparr>
         \<lparr>urlsCreated = 4, urlsRevoked = [], bitmapsCreated = 2, bitmapsClosed = [0, 1]\<rparr>
         [(0, Converting), (1, Converting)]"
    and "previewed =
      pg ((\<lambda>r. blankItem)
            (0 := jpg Queued None None None None,
             1 := png Queued None None None None,
             2 := jpg Queued (Some 6) (Some \<lparr>bsize = 204, bdata = 2048\<rparr>) (Some ''photo.webp'') (Some 204)))
         3 (Some 2) []
         \<lparr>originalUrl = Some 2, webpUrl = Some 5\<rparr>
         \<lparr>urlsCreated = 7, urlsRevoked = [3, 4], bitmapsCreated = 2, bitmapsClosed = [0, 1]\<rparr>
         [(2, Queued), (2, Queued)]"
proof -
  let ?none = "\<lparr>originalUrl = None, webpUrl = None\<rparr>"
  let ?a = "jpg Queued None None None None"
  let ?b = "png Queued None None None None"
  let ?c = "\<lambda>ou. jpg Queued (Some ou) (Some \<lparr>bsize = 204, bdata = 2048\<rparr>) (Some ''photo.webp'') (Some 204)"
  let ?s1 = "pg ((\<lambda>r. blankItem)(0 := ?a, 1 := ?b)) 2 None [AutoSelect [?a, ?b]] ?none
     \<lparr>urlsCreated = 2, urlsRevoked = [], bitmapsCreated = 0, bitmapsClosed = []\<rparr> []"
  let ?s2 = "pg ((\<lambda>r. blankItem)(0 := ?a, 1 := ?b, 2 := ?a)) 3 (Some 2) [] ?none
     \<lparr>urlsCreated = 2, urlsRevoked = [], bitmapsCreated = 0, bitmapsClosed = []\<rparr> []"
  let ?s3 = "pg ((\<lambda>r. blankItem)(0 := ?a, 1 := ?b, 2 := ?c 4)) 3 (Some 2) []
     \<lparr>originalUrl = Some 2, webpUrl = Some 3\<rparr>
     \<lparr>urlsCreated = 5, urlsRevoked = [], bitmapsCreated = 1, bitmapsClosed = [0]\<rparr>
     [(2, Queued)]"
  let ?s4 = "pg ((\<lambda>r. blankItem)(0 := ?a, 1 := ?b, 2 := ?c 6)) 3 (Some 2) []
     \<lparr>originalUrl = Some 2, webpUrl = Some 5\<rparr>
     \<lparr>urlsCreated = 7, urlsRevoked = [3, 4], bitmapsCreated = 2, bitmapsClosed = [0, 1]\<rparr>
     [(2, Queued), (2, Queued)]"
  have 1: "handleFiles sampleEnv [photoJpg, photoPng] initial = ?s1"
    by (simp add: eval_defs jpg_def png_def pg_def)
  show "twoPhotos =
      pg ((\<lambda>r. blankItem)
            (0 := jpg Done (Some 2) (Some \<lparr>bsize = 204, bdata = 2048\<rparr>) (Some ''photo.webp'') (Some 204),
             1 := png Done (Some 3) (Some \<lparr>bsize = 409, bdata = 4096\<rparr>) (Some ''photo.webp'') (Some 409)))
         2 None
         [AutoSelect [jpg Queued None None None None, png Queued None None None None]]
         \<lparr>originalUrl = None, webpUrl = None\<rparr>
         \<lparr>urlsCreated = 4, urlsRevoked = [], bitmapsCreated = 2, bitmapsClosed = [0, 1]\<rparr>
         [(0, Converting), (1, Converting)]"
    unfolding twoPhotos_def 1 by (simp add: eval_defs jpg_def png_def pg_def fun_upd_twist)
  have 2: "fireTimer 0 ?s1 = ?s2" by (simp add: eval_defs jpg_def png_def pg_def)
  have 3: "viewEffect1 sampleEnv ?s2 = ?s3" by (simp add: eval_defs jpg_def png_def pg_def)
  have 4: "viewEffect2 sampleEnv ?s3 = ?s4" by (simp add: eval_defs jpg_def png_def pg_def)
  show "previewed = ?s4"
    unfolding previewed_def previewTwo_def run.simps step.simps 1 2 3 4 ..
qed

subsection \<open>Revoking what an item holds\<close>

lemma revokeIfSet_urlsRevoked:
  "urlsRevoked (revokeIfSet u b) = urlsRevoked b @ (case u of None \<Rightarrow> [] | Some v \<Rightarrow> [v])"
  "urlsCreated (revokeIfSet u b) = urlsCreated b"
  by (simp_all add: revokeIfSet_def revokeObjectURL_def split: option.splits)

lemma revokeItem_urlsRevoked:
  "urlsRevoked (revokeItem it b) = urlsRevoked b @ heldUrls it"
  "urlsCreated (revokeItem it b) = urlsCreated b"
  by (simp_all add: revokeItem_def heldUrls_def revokeIfSet_urlsRevoked)


subsection \<open>Deleting an item\<close>

lemma findIndex_Some:
  "findIndex P xs = Some i \<Longrightarrow> i < length xs \<and> P (xs ! i)"
  by (induction xs arbitrary: i) (auto split: if_splits option.splits)

lemma nth_notin_without:
  "distinct xs \<Longrightarrow> i < length xs \<Longrightarrow> xs ! i \<notin> set (without i xs)"
proof -
  assume d: "distinct xs" and i: "i < length xs"
  have "xs = take i xs @ xs ! i # drop (Suc i) xs"
    using i by (rule id_take_nth_drop)
  then have "distinct (take i xs @ xs ! i # drop (Suc i) xs)"
    using d by simp
  then show ?thesis by (auto simp: without_def)
qed

text \<open>
  What \<^verbatim>\<open>deleteItem\<close> does when the selected object has the identifier it is called
  with: it revokes the URLs held by the element of the queue that has this identifier,
  removes that element, and sets the preview selection to the first remaining element
  whose status is not \<^verbatim>\<open>error\<close>, or to no item when there is none. The selection is
  then an element of the queue not in error or nothing, and never the deleted element. The
  URLs of the selected object are not read: they are revoked only if the selected object is
  the element of the queue.
\<close>

lemma deleteItem_queue_element:
  assumes "distinct (items s)"
    and "findIndex (\<lambda>r. item_id (heap s r) = i) (items s) = Some index"
    and "selectedPreviewItem s = Some p"
    and "item_id (heap s p) = i"
  shows "urlsRevoked (browser (deleteItem i s)) =
           urlsRevoked (browser s) @ heldUrls (heap s (items s ! index)) \<and>
         items (deleteItem i s) = without index (items s) \<and>
         items s ! index \<notin> set (items (deleteItem i s)) \<and>
         selectedPreviewItem (deleteItem i s) =
           find (\<lambda>r. status (heap s r) \<noteq> Error) (items (deleteItem i s)) \<and>
         selectedPreviewItem (deleteItem i s) \<noteq> Some (items s ! index) \<and>
         (case selectedPreviewItem (deleteItem i s) of
            None \<Rightarrow> True
          | Some r \<Rightarrow> r \<in> set (items (deleteItem i s)) \<and>
                      status (heap (deleteItem i s) r) \<noteq> Error)"
proof -
  have idx: "index < length (items s)"
    using findIndex_Some [OF assms(2)] by simp
  have gone: "items s ! index \<notin> set (without index (items s))"
    using assms(1) idx by (rule nth_notin_without)
  have its: "items (deleteItem i s) = without index (items s)"
    using assms(2) by (simp add: deleteItem_def Let_def)
  have sel: "selectedPreviewItem (deleteItem i s) =
      find (\<lambda>r. status (heap s r) \<noteq> Error) (without index (items s))"
    using assms(2,3,4) by (simp add: deleteItem_def Let_def)
  have hp: "heap (deleteItem i s) = heap s"
    using assms(2) by (simp add: deleteItem_def Let_def)
  have rev: "urlsRevoked (browser (deleteItem i s)) =
      urlsRevoked (browser s) @ heldUrls (heap s (items s ! index))"
    using assms(2) by (simp add: deleteItem_def Let_def revokeItem_urlsRevoked)
  have found: "r \<in> set (without index (items s)) \<and> status (heap s r) \<noteq> Error"
    if "find (\<lambda>r. status (heap s r) \<noteq> Error) (without index (items s)) = Some r" for r
    using that by (auto simp: find_Some_iff)
  have "selectedPreviewItem (deleteItem i s) \<noteq> Some (items s ! index)"
    using found gone sel by metis
  moreover have "case selectedPreviewItem (deleteItem i s) of
            None \<Rightarrow> True
          | Some r \<Rightarrow> r \<in> set (items (deleteItem i s)) \<and>
                      status (heap (deleteItem i s) r) \<noteq> Error"
    using found by (simp add: sel its hp split: option.splits)
  ultimately show ?thesis
    using rev its gone sel by simp
qed

text \<open>
  C6. Two files are dropped, the delayed selection opens the preview of the first one and
  both conversions of the preview finish. The selected object (2) is not the element of
  the queue (0): it has the same identifier and thumbnail URL, and it holds the output
  URL the preview stored (6), which the element of the queue does not.
  \<^verbatim>\<open>deleteItem\<close> called with that identifier revokes what the element of the queue
  holds, the thumbnail URL (0), and moves the selection to the remaining item. The output
  URL of the selected item is not revoked, neither by \<^verbatim>\<open>deleteItem\<close> nor later, when
  the list is cleared and the view is closed.
\<close>

theorem deleteItem_leaves_output_url:
  "items previewed = [0, 1] \<and>
   selectedPreviewItem previewed = Some 2 \<and>
   item_id (heap previewed 2) = ''u'' \<and>
   outputUrl (heap previewed 2) = Some 6 \<and>
   thumbnailUrl (heap previewed 2) = Some 0 \<and>
   item_id (heap previewed 0) = ''u'' \<and>
   outputUrl (heap previewed 0) = None \<and>
   thumbnailUrl (heap previewed 0) = Some 0 \<and>
   urlsRevoked (browser previewed) = [3, 4] \<and>
   urlsRevoked (browser (deleteItem ''u'' previewed)) = [3, 4, 0] \<and>
   items (deleteItem ''u'' previewed) = [1] \<and>
   selectedPreviewItem (deleteItem ''u'' previewed) = Some 1 \<and>
   urlsCreated (browser (viewTeardown (clearAll (deleteItem ''u'' previewed)))) = 7 \<and>
   urlsRevoked (browser (viewTeardown (clearAll (deleteItem ''u'' previewed)))) = [3, 4, 0, 1, 2, 5]"
  unfolding twoFiles_states
  by (simp add: deleteItem_def without_def revokeItem_def revokeIfSet_def revokeObjectURL_def
      clearAll_def viewTeardown_def Let_def)

subsection \<open>Ownership of object URLs\<close>







































subsection \<open>Clearing the queue\<close>




subsection \<open>Archive export with equal output names\<close>

text \<open>
  C7. Two files, \<^verbatim>\<open>photo.jpg\<close> and \<^verbatim>\<open>photo.png\<close>, are both converted: two items are
  done and both have the output name \<^verbatim>\<open>photo.webp\<close>. The archive
  \<^verbatim>\<open>downloadAllZip\<close> generates has one entry, with the blob of the second item: the
  entry of the first item was replaced.
\<close>

theorem downloadAllZip_same_name:
  "items twoPhotos = [0, 1] \<and>
   filter (isDone (heap twoPhotos)) (items twoPhotos) = [0, 1] \<and>
   map (\<lambda>r. name (itemFile (heap twoPhotos r))) (items twoPhotos) = [''photo.jpg'', ''photo.png''] \<and>
   map (\<lambda>r. entryName (heap twoPhotos r)) (items twoPhotos) = [''photo.webp'', ''photo.webp''] \<and>
   archives (downloadAllZip twoPhotos) = [[(''photo.webp'', \<lparr>bsize = 409, bdata = 4096\<rparr>)]]"
  unfolding twoFiles_states
  by (simp add: isDone_def entryName_def downloadAllZip_def downloadBlob_def createObjectURL_def
      photoJpg_def photoPng_def)

subsection \<open>Zoom and pan\<close>

lemma resetZoom_resets: "scale (resetZoom z) = 1 \<and> panX (resetZoom z) = 0 \<and> panY (resetZoom z) = 0"
  by (simp add: resetZoom_def)

text \<open>What the handlers do guard. The wheel, when it changes the scale, and the
  \<^verbatim>\<open>-\<close> key leave the pan at (0, 0) when they leave the scale at 1.\<close>

lemma zoom_out_resets_pan:
  "scale (handleWheel m modifier deltaY z) = 1 \<Longrightarrow> scale z \<noteq> 1 \<Longrightarrow>
     panX (handleWheel m modifier deltaY z) = 0 \<and> panY (handleWheel m modifier deltaY z) = 0"
  "scale (handleKeyDown m True focused Minus z) = 1 \<Longrightarrow>
     panX (handleKeyDown m True focused Minus z) = 0 \<and> panY (handleKeyDown m True focused Minus z) = 0"
  by (auto simp: handleWheel_def handleKeyDown_def Let_def split: if_splits)

text \<open>A drag starts, and an arrow key pans, only while the scale is greater than 1.\<close>

lemma pan_starts_zoomed_in:
  "isPanning (handleImageMouseDown onDivider x y z) \<Longrightarrow> \<not> isPanning z \<Longrightarrow> 1 < scale z"
  "(panX (handleKeyDown m inside focused k z), panY (handleKeyDown m inside focused k z)) \<noteq> (panX z, panY z) \<Longrightarrow>
     k \<in> {ArrowLeft, ArrowRight, ArrowUp, ArrowDown} \<Longrightarrow> 1 < scale z"
  by (auto simp: handleImageMouseDown_def handleKeyDown_def Let_def split: if_splits)

text \<open>Neither the reset nor a zoom step ends a drag, and the \<^verbatim>\<open>+\<close> key changes the
  scale without looking at the pan.\<close>

lemma zoom_keeps_drag:
  "isPanning (resetZoom z) = isPanning z"
  "isPanning (handleKeyDown m inside focused k z) = isPanning z"
  "isPanning (handleWheel m modifier deltaY z) = isPanning z"
  "panX (handleKeyDown m True focused Plus z) = panX z"
  "panY (handleKeyDown m True focused Plus z) = panY z"
  by (simp_all add: resetZoom_def handleKeyDown_def handleWheel_def Let_def split: key.splits)

text \<open>
  C9. The \<^verbatim>\<open>+\<close> key zooms in from 1: the scale is then greater than 1, provided
  the product \<^verbatim>\<open>1 * 1.1\<close> rounds to more than 1. The mouse button goes down on the
  image and a drag begins. Enter resets the zoom while the button is held: the scale is
  exactly 1 and the pan is (0, 0), and the drag is still on. The next mouse move pans the
  image by (5, 0): the scale is exactly 1 and the pan is not (0, 0), and the image was
  panned while the scale was not greater than 1.
\<close>

theorem pan_at_scale_one:
  assumes "1 < up m 1"
  shows "1 < scale (zoomRun m (take 2 dragAcrossReset) zoomInitial) \<and>
         isPanning (zoomRun m (take 2 dragAcrossReset) zoomInitial) \<and>
         scale (zoomRun m (take 3 dragAcrossReset) zoomInitial) = 1 \<and>
         panX (zoomRun m (take 3 dragAcrossReset) zoomInitial) = 0 \<and>
         panY (zoomRun m (take 3 dragAcrossReset) zoomInitial) = 0 \<and>
         scale (zoomRun m dragAcrossReset zoomInitial) = 1 \<and>
         panX (zoomRun m dragAcrossReset zoomInitial) = 5 \<and>
         panY (zoomRun m dragAcrossReset zoomInitial) = 0"
  using assms
  by (simp add: dragAcrossReset_def zoomInitial_def handleKeyDown_def handleImageMouseDown_def
      handleImageMouseMove_def resetZoom_def Let_def min_def)

theorem pan_at_scale_one_witness:
  "1 < up unrounded 1 \<and>
   scale (zoomRun unrounded dragAcrossReset zoomInitial) = 1 \<and>
   panX (zoomRun unrounded dragAcrossReset zoomInitial) = 5 \<and>
   panY (zoomRun unrounded dragAcrossReset zoomInitial) = 0"
proof -
  have "1 < up unrounded 1" by (simp add: unrounded_def)
  from pan_at_scale_one [OF this] this show ?thesis by simp
qed

end
